theory Spec2Isabelle
  imports Complex_Main "HOL-Library.Word"
begin

unbundle bit_operations_syntax

section \<open>Build constants of vdifil.cu\<close>

definition NACCUMULATE :: nat where "NACCUMULATE = 4000"
definition PERBLOCK :: nat where "PERBLOCK = 625"
definition TIMEAVG :: nat where "TIMEAVG = 16"
definition VDIFSIZE :: nat where "VDIFSIZE = 8000"
definition FFTOUT :: nat where "FFTOUT = 257"
definition FFTUSE :: nat where "FFTUSE = 256"
definition UNPACKFACTOR :: nat where "UNPACKFACTOR = 4"

text \<open>The sizes \<open>main\<close> derives from them (lines 317 to 321).\<close>

definition toread :: nat where
  "toread = NACCUMULATE * 8000"

definition unpackedsize :: nat where
  "unpackedsize = NACCUMULATE * VDIFSIZE * UNPACKFACTOR"

definition fftedsize :: nat where
  "fftedsize = unpackedsize div (2 * FFTUSE) * FFTOUT"

definition powersize :: nat where
  "powersize = unpackedsize div (2 * FFTUSE) * FFTUSE div TIMEAVG"

section \<open>Single-precision values\<close>

text \<open>
  A \<open>float\<close> of the program is a finite number, an infinity or a NaN. The finite values
  are modelled by the reals and computed with exactly: rounding, overflow of a finite
  result to an infinity and the sign of zero are left out. The special values follow
  IEEE 754, which is what the device computes with: a non-zero finite number divided by
  zero is an infinity, zero divided by zero is a NaN, and a NaN propagates.
\<close>

datatype fval = Fin real | PInf | NInf | NaN

fun fneg :: "fval \<Rightarrow> fval" where
  "fneg (Fin a) = Fin (- a)"
| "fneg PInf = NInf"
| "fneg NInf = PInf"
| "fneg NaN = NaN"

fun fadd :: "fval \<Rightarrow> fval \<Rightarrow> fval" where
  "fadd (Fin a) (Fin b) = Fin (a + b)"
| "fadd NaN _ = NaN"
| "fadd _ NaN = NaN"
| "fadd PInf NInf = NaN"
| "fadd NInf PInf = NaN"
| "fadd PInf _ = PInf"
| "fadd _ PInf = PInf"
| "fadd NInf _ = NInf"
| "fadd _ NInf = NInf"

definition fsub :: "fval \<Rightarrow> fval \<Rightarrow> fval" where
  "fsub a b = fadd a (fneg b)"

text \<open>The sign of a value that is not a NaN: \<open>1\<close>, \<open>0\<close> or \<open>-1\<close>.\<close>

fun fsgn :: "fval \<Rightarrow> real" where
  "fsgn (Fin a) = sgn a"
| "fsgn PInf = 1"
| "fsgn NInf = - 1"
| "fsgn NaN = 0"

definition inf_of_sign :: "real \<Rightarrow> fval" where
  "inf_of_sign s = (if s = 0 then NaN else if 0 < s then PInf else NInf)"

fun fmul :: "fval \<Rightarrow> fval \<Rightarrow> fval" where
  "fmul (Fin a) (Fin b) = Fin (a * b)"
| "fmul NaN _ = NaN"
| "fmul _ NaN = NaN"
| "fmul a b = inf_of_sign (fsgn a * fsgn b)"

fun fdiv :: "fval \<Rightarrow> fval \<Rightarrow> fval" where
  "fdiv (Fin a) (Fin b) = (if b = 0 then inf_of_sign (sgn a) else Fin (a / b))"
| "fdiv NaN _ = NaN"
| "fdiv _ NaN = NaN"
| "fdiv (Fin a) _ = Fin 0"
| "fdiv a (Fin b) = inf_of_sign (fsgn a * (if b < 0 then - 1 else 1))"
| "fdiv _ _ = NaN"

fun fsqrt :: "fval \<Rightarrow> fval" where
  "fsqrt (Fin a) = (if a < 0 then NaN else Fin (sqrt a))"
| "fsqrt PInf = PInf"
| "fsqrt _ = NaN"

section \<open>The unpacker\<close>

text \<open>The constant mask table, line 61.\<close>

definition kMask :: "8 word list" where
  "kMask = [0x03, 0x0C, 0x30, 0xC0]"

text \<open>
  Line 83, the integer part: \<open>(inval & kMask[tmod]) >> (2 * tmod)\<close> on the operands
  promoted to \<open>int\<close>, then \<open>static_cast<short>\<close>.
\<close>

definition unpack_code :: "8 word \<Rightarrow> nat \<Rightarrow> 16 word" where
  "unpack_code inval tmod =
     (let promoted = (ucast inval :: 32 word) AND (ucast (kMask ! tmod) :: 32 word);
          shifted = signed_drop_bit (2 * tmod) promoted
      in (ucast shifted :: 16 word))"

text \<open>\<open>static_cast<float>\<close> of a \<open>short\<close>: every 16-bit integer is a float.\<close>

definition short_to_float :: "16 word \<Rightarrow> fval" where
  "short_to_float s = Fin (real_of_int (sint s))"

definition unpack_sample :: "8 word \<Rightarrow> nat \<Rightarrow> fval" where
  "unpack_sample inval tmod = short_to_float (unpack_code inval tmod)"

text \<open>
  Device arrays are maps from an index to a value. \<open>UnpackKernel\<close> (lines 63 to 91) runs
  on a grid of blocks; the threads of a block share the staging buffer \<open>incoming\<close> and
  meet at the barrier of line 78. The model runs a block in lock step: in one pass of
  the \<open>ipol\<close> loop every thread first stores its byte in \<open>incoming\<close>, and after the
  barrier every thread reads what it needs and writes its four samples. (The source has
  no second barrier before the next pass overwrites \<open>incoming\<close>; the model takes the
  passes in order.)

  \<open>idx0\<close> is the part of \<open>idx\<close> the threads of a block have in common, so that thread
  \<open>tid\<close> has \<open>idx = idx0 + tid\<close>.
\<close>

definition unpack_stage ::
  "nat \<Rightarrow> (nat \<Rightarrow> 8 word) \<Rightarrow> nat \<Rightarrow> nat \<Rightarrow> (nat \<Rightarrow> 8 word) \<Rightarrow> (nat \<Rightarrow> 8 word)" where
  "unpack_stage bdim inp idx0 samples incoming =
     fold (\<lambda>tid inc. if idx0 + tid < samples then inc(tid := inp (idx0 + tid)) else inc)
       [0..<bdim] incoming"

text \<open>Lines 79 to 85: the \<open>ichunk\<close> loop of one thread.\<close>

definition unpack_store ::
  "(nat \<Rightarrow> 8 word) \<Rightarrow> nat \<Rightarrow> nat \<Rightarrow> (nat \<Rightarrow> fval) \<Rightarrow> (nat \<Rightarrow> fval)" where
  "unpack_store incoming outidx tid outp =
     snd (fold (\<lambda>ichunk (outidx2, outp).
                 let inidx = tid div 4 + ichunk * 256;
                     inval = incoming inidx
                 in (outidx2 + 1024, outp(outidx2 := unpack_sample inval (tid mod 4))))
            [0..<4] (outidx + tid, outp))"

text \<open>One pass of the \<open>ipol\<close> loop for a whole block.\<close>

definition unpack_round ::
  "nat \<Rightarrow> (nat \<Rightarrow> 8 word) \<Rightarrow> nat \<Rightarrow> nat \<Rightarrow> nat \<Rightarrow>
   (nat \<Rightarrow> 8 word) \<times> (nat \<Rightarrow> fval) \<Rightarrow> (nat \<Rightarrow> 8 word) \<times> (nat \<Rightarrow> fval)" where
  "unpack_round bdim inp idx0 outidx samples st =
     (let incoming = unpack_stage bdim inp idx0 samples (fst st);
          outp = fold (\<lambda>tid outp. if idx0 + tid < samples
                                   then unpack_store incoming outidx tid outp else outp)
                   [0..<bdim] (snd st)
      in (incoming, outp))"

text \<open>One pass of the \<open>isamp\<close> loop for a whole block: both polarisations.\<close>

definition unpack_isamp ::
  "nat \<Rightarrow> (nat \<Rightarrow> nat \<Rightarrow> 8 word) \<Rightarrow> nat \<Rightarrow> nat \<Rightarrow> nat \<Rightarrow>
   (nat \<Rightarrow> 8 word) \<times> (nat \<Rightarrow> nat \<Rightarrow> fval) \<Rightarrow> (nat \<Rightarrow> 8 word) \<times> (nat \<Rightarrow> nat \<Rightarrow> fval)" where
  "unpack_isamp bdim inp idx0 outidx samples st =
     fold (\<lambda>ipol (incoming, outp).
             let r = unpack_round bdim (inp ipol) idx0 outidx samples (incoming, outp ipol)
             in (fst r, outp(ipol := snd r)))
       [0..<2] st"

text \<open>
  A block: the \<open>isamp\<close> loop, with \<open>idx\<close> and \<open>outidx\<close> advanced as in lines 88 and 89.
  \<open>inc0\<close> is the content the staging buffer starts with (shared memory is not
  initialised).
\<close>

definition unpack_block ::
  "nat \<Rightarrow> nat \<Rightarrow> (nat \<Rightarrow> nat \<Rightarrow> 8 word) \<Rightarrow> nat \<Rightarrow> (nat \<Rightarrow> 8 word) \<Rightarrow>
   (nat \<Rightarrow> nat \<Rightarrow> fval) \<Rightarrow> (nat \<Rightarrow> nat \<Rightarrow> fval)" where
  "unpack_block bdim bid inp samples inc0 outp =
     snd (snd (snd (fold (\<lambda>isamp (idx0, outidx, st).
                      (idx0 + bdim, outidx + bdim * 4,
                       unpack_isamp bdim inp idx0 outidx samples st))
                 [0..<PERBLOCK]
                 (bid * bdim * PERBLOCK, bid * bdim * PERBLOCK * 4, (inc0, outp)))))"

text \<open>The launch \<open>UnpackKernel<<<grid, bdim>>>(in, out, samples)\<close>.\<close>

definition UnpackKernel ::
  "nat \<Rightarrow> nat \<Rightarrow> (nat \<Rightarrow> nat \<Rightarrow> 8 word) \<Rightarrow> (nat \<Rightarrow> nat \<Rightarrow> fval) \<Rightarrow> nat \<Rightarrow>
   (nat \<Rightarrow> 8 word) \<Rightarrow> (nat \<Rightarrow> nat \<Rightarrow> fval)" where
  "UnpackKernel grid bdim inp outp samples inc0 =
     fold (\<lambda>bid outp. unpack_block bdim bid inp samples inc0 outp) [0..<grid] outp"

subsection \<open>One byte: the four samples and their codes\<close>







definition zero_bytes :: "nat \<Rightarrow> 8 word" where
  "zero_bytes i = 0"

definition zero_floats :: "nat \<Rightarrow> nat \<Rightarrow> fval" where
  "zero_floats ipol j = Fin 0"

subsection \<open>Auxiliary notions of the unpacker's proofs\<close>



section \<open>The power detector\<close>

text \<open>\<open>cufftComplex\<close>: the fields \<open>x\<close> (real part) and \<open>y\<close> (imaginary part).\<close>

datatype cufftComplex = CufftComplex (cx: fval) (cy: fval)

definition TIMESCALE :: real where "TIMESCALE = 0.125"

text \<open>
  Lines 106 to 112 (and 133 to 139): the \<open>ipol\<close> and \<open>iavg\<close> loops add
  \<open>polval.x * polval.x + polval.y * polval.y\<close> to \<open>outvalue\<close>.
\<close>

definition detect_accumulate :: "(nat \<Rightarrow> nat \<Rightarrow> cufftComplex) \<Rightarrow> nat \<Rightarrow> fval \<Rightarrow> fval" where
  "detect_accumulate inp inidx outvalue =
     fold (\<lambda>ipol outvalue.
            fold (\<lambda>iavg outvalue.
                   let polval = inp ipol (inidx + iavg * FFTOUT)
                   in fadd outvalue
                        (fadd (fmul (cx polval) (cx polval)) (fmul (cy polval) (cy polval))))
              [0..<TIMEAVG] outvalue)
       [0..<2] outvalue"

text \<open>
  One thread of \<open>DetectKernel\<close> (lines 97 to 118) or of \<open>DetectScaleKernel\<close> (lines 122
  to 151): the two kernels differ in what they store for the scaled \<open>outvalue\<close>, which
  is the parameter \<open>emit\<close>. The indices are \<open>int\<close>s of the source; they stay far from
  overflow, and \<open>FFTUSE - threadIdx.x - 1\<close> is not negative for the 256 threads of a block.
\<close>

definition detect_thread ::
  "(fval \<Rightarrow> 'a) \<Rightarrow> nat \<Rightarrow> nat \<Rightarrow> (nat \<Rightarrow> nat \<Rightarrow> cufftComplex) \<Rightarrow> (nat \<Rightarrow> 'a) \<Rightarrow> (nat \<Rightarrow> 'a)" where
  "detect_thread emit bid tid inp outp =
     snd (snd (snd (fold (\<lambda>isamp (inidx, outidx, outvalue, outp).
                 let outvalue = detect_accumulate inp inidx outvalue;
                     outvalue = fmul outvalue (Fin TIMESCALE)
                 in (inidx + FFTOUT * TIMEAVG, outidx + FFTUSE, Fin 0,
                     outp(outidx := emit outvalue)))
            [0..<PERBLOCK]
            (bid * PERBLOCK * TIMEAVG * FFTOUT + tid + 1,
             bid * PERBLOCK * FFTUSE + FFTUSE - tid - 1, Fin 0, outp))))"

text \<open>The launch \<open>DetectKernel<<<grid, bdim>>>(in, out)\<close>: line 114 stores \<open>outvalue\<close>.\<close>

definition DetectKernel ::
  "nat \<Rightarrow> nat \<Rightarrow> (nat \<Rightarrow> nat \<Rightarrow> cufftComplex) \<Rightarrow> (nat \<Rightarrow> fval) \<Rightarrow> (nat \<Rightarrow> fval)" where
  "DetectKernel grid bdim inp outp =
     fold (\<lambda>bid outp. fold (\<lambda>tid outp. detect_thread (\<lambda>outvalue. outvalue) bid tid inp outp)
                          [0..<bdim] outp)
       [0..<grid] outp"

text \<open>
  \<open>__float2int_ru\<close>: conversion to a 32-bit integer, rounding up. The device saturates
  a value out of range and converts a NaN to 0.
\<close>

definition float2int_ru :: "fval \<Rightarrow> int" where
  "float2int_ru v =
     (case v of
        Fin a \<Rightarrow> (if \<lceil>a\<rceil> > 2147483647 then 2147483647
                  else if \<lceil>a\<rceil> < - 2147483648 then - 2147483648 else \<lceil>a\<rceil>)
      | PInf \<Rightarrow> 2147483647
      | NInf \<Rightarrow> - 2147483648
      | NaN \<Rightarrow> 0)"

text \<open>Lines 141 to 147: scaling, clamping and the cast to \<open>unsigned char\<close>.\<close>

definition scale_sample :: "fval \<Rightarrow> fval \<Rightarrow> fval \<Rightarrow> 8 word" where
  "scale_sample outvalue mean stdev =
     (let scaled = float2int_ru
                     (fadd (fmul (fdiv (fsub outvalue mean) stdev) (Fin 32)) (Fin 128));
          scaled = (if scaled > 255 then 255 else if scaled < 0 then 0 else scaled)
      in word_of_int scaled)"

text \<open>The launch \<open>DetectScaleKernel<<<grid, bdim>>>(in, out, means, stdevs)\<close>.\<close>

definition DetectScaleKernel ::
  "nat \<Rightarrow> nat \<Rightarrow> (nat \<Rightarrow> nat \<Rightarrow> cufftComplex) \<Rightarrow> (nat \<Rightarrow> 8 word) \<Rightarrow>
   (nat \<Rightarrow> fval) \<Rightarrow> (nat \<Rightarrow> fval) \<Rightarrow> (nat \<Rightarrow> 8 word)" where
  "DetectScaleKernel grid bdim inp outp means stdevs =
     fold (\<lambda>bid outp.
            fold (\<lambda>tid outp.
                   detect_thread
                     (\<lambda>outvalue. scale_sample outvalue (means (FFTUSE - tid - 1))
                                    (stdevs (FFTUSE - tid - 1)))
                     bid tid inp outp)
              [0..<bdim] outp)
       [0..<grid] outp"

text \<open>
  The raw power of the specification: for output time step \<open>s\<close> and transform bin \<open>k\<close>,
  the squared magnitudes of bin \<open>k\<close> of the 16 spectra \<open>16 s\<close> to \<open>16 s + 15\<close> of both
  polarisations, summed (in the order of the loops) and multiplied by 1/8. Spectrum \<open>n\<close>
  has its bin \<open>k\<close> at index \<open>n * 257 + k\<close>.
\<close>

definition squared_magnitude :: "cufftComplex \<Rightarrow> fval" where
  "squared_magnitude z = fadd (fmul (cx z) (cx z)) (fmul (cy z) (cy z))"

definition raw_power :: "(nat \<Rightarrow> nat \<Rightarrow> cufftComplex) \<Rightarrow> nat \<Rightarrow> nat \<Rightarrow> fval" where
  "raw_power inp s k =
     fmul (foldl fadd (Fin 0)
             (concat (map (\<lambda>ipol. map (\<lambda>iavg. squared_magnitude (inp ipol ((16 * s + iavg) * 257 + k)))
                                    [0..<16])
                        [0..<2])))
          (Fin (1 / 8))"

text \<open>Auxiliary: the scaled sum a thread forms at the input index \<open>inidx\<close>.\<close>

definition detect_value :: "(nat \<Rightarrow> nat \<Rightarrow> cufftComplex) \<Rightarrow> nat \<Rightarrow> fval" where
  "detect_value inp inidx = fmul (detect_accumulate inp inidx (Fin 0)) (Fin TIMESCALE)"

definition detect_step ::
  "(fval \<Rightarrow> 'a) \<Rightarrow> (nat \<Rightarrow> nat \<Rightarrow> cufftComplex) \<Rightarrow> nat \<Rightarrow>
   nat \<times> nat \<times> fval \<times> (nat \<Rightarrow> 'a) \<Rightarrow> nat \<times> nat \<times> fval \<times> (nat \<Rightarrow> 'a)" where
  "detect_step emit inp =
     (\<lambda>isamp (inidx, outidx, outvalue, outp).
                 let outvalue = detect_accumulate inp inidx outvalue;
                     outvalue = fmul outvalue (Fin TIMESCALE)
                 in (inidx + FFTOUT * TIMEAVG, outidx + FFTUSE, Fin 0,
                     outp(outidx := emit outvalue)))"

text \<open>
  What the detectors leave at output index \<open>j\<close>: the value of the thread
  \<open>255 - j mod 256\<close> for the time step \<open>j div 256\<close>; and a block of 256 threads.
\<close>

definition detect_out ::
  "(nat \<Rightarrow> fval \<Rightarrow> 'a) \<Rightarrow> (nat \<Rightarrow> nat \<Rightarrow> cufftComplex) \<Rightarrow> nat \<Rightarrow> 'a" where
  "detect_out E inp j =
     E (255 - j mod 256) (detect_value inp (j div 256 * 4112 + (256 - j mod 256)))"

definition detect_block ::
  "(nat \<Rightarrow> fval \<Rightarrow> 'a) \<Rightarrow> nat \<Rightarrow> (nat \<Rightarrow> nat \<Rightarrow> cufftComplex) \<Rightarrow> (nat \<Rightarrow> 'a) \<Rightarrow> (nat \<Rightarrow> 'a)" where
  "detect_block E bid inp outp =
     fold (\<lambda>tid outp. detect_thread (E tid) bid tid inp outp) [0..<256] outp"

text \<open>Inputs for the closed examples: all-zero spectra and constant statistics.\<close>

definition zero_spectra :: "nat \<Rightarrow> nat \<Rightarrow> cufftComplex" where
  "zero_spectra ipol i = CufftComplex (Fin 0) (Fin 0)"

definition unit_floats :: "nat \<Rightarrow> fval" where
  "unit_floats i = Fin 1"

section \<open>The statistics estimator\<close>

text \<open>\<open>FactorFunctor\<close>, lines 55 to 59.\<close>

definition FactorFunctor :: "fval \<Rightarrow> fval" where
  "FactorFunctor val = (if val \<noteq> Fin 0 then fdiv (Fin 1) val else val)"

text \<open>
  The table of reciprocals \<open>dfactors\<close> (lines 413 to 418): the sequence 0, 1, 2, ...
  transformed by \<open>FactorFunctor\<close>. The device vector has \<open>5 * powersize / FFTUSE + 1\<close>
  entries.
\<close>

definition dfactors :: "nat \<Rightarrow> fval" where
  "dfactors i = FactorFunctor (Fin (real i))"

text \<open>
  One thread of \<open>GetScalingFactorsKernel\<close> (lines 168 to 194); \<open>bs\<close> is the pair of the
  arrays \<open>base\<close> and \<open>stdev\<close>.
\<close>

definition scaling_thread ::
  "nat \<Rightarrow> (nat \<Rightarrow> fval) \<Rightarrow> (nat \<Rightarrow> fval) \<Rightarrow> nat \<Rightarrow>
   (nat \<Rightarrow> fval) \<times> (nat \<Rightarrow> fval) \<Rightarrow> (nat \<Rightarrow> fval) \<times> (nat \<Rightarrow> fval)" where
  "scaling_thread tid indata factors processed bs =
     (let base = fst bs; stdev = snd bs;
          mean = Fin 0;
          estd = fmul (fmul (stdev tid) (stdev tid)) (fsub (Fin (real processed)) (Fin 1));
          oldmean = base tid;
          r = fold (\<lambda>isamp (mean, estd, oldmean).
                     let val = indata (isamp * FFTUSE + tid);
                         diff = fsub val oldmean;
                         mean = fadd oldmean (fmul diff (factors (processed + isamp + 1)));
                         estd = fadd estd (fmul diff (fsub val mean));
                         oldmean = mean
                     in (mean, estd, oldmean))
                [0..<15625] (mean, estd, oldmean);
          mean = fst r; estd = fst (snd r)
      in (base(tid := mean),
          stdev(tid := fsqrt (fdiv estd (fsub (Fin (real (processed + 15625))) (Fin 1))))))"

text \<open>The launch \<open>GetScalingFactorsKernel<<<1, bdim>>>\<close>.\<close>

definition GetScalingFactorsKernel ::
  "nat \<Rightarrow> (nat \<Rightarrow> fval) \<Rightarrow> (nat \<Rightarrow> fval) \<Rightarrow> nat \<Rightarrow>
   (nat \<Rightarrow> fval) \<times> (nat \<Rightarrow> fval) \<Rightarrow> (nat \<Rightarrow> fval) \<times> (nat \<Rightarrow> fval)" where
  "GetScalingFactorsKernel bdim indata factors processed bs =
     fold (\<lambda>tid bs. scaling_thread tid indata factors processed bs) [0..<bdim] bs"

text \<open>
  Lines 451 and 452 of \<open>main\<close>: the statistics step of one calibration pass on the power
  block \<open>tmpdpower\<close>. The state is \<open>processed\<close> with the arrays \<open>dmeans\<close> and \<open>dstdevs\<close>.
\<close>

definition calibrate_step ::
  "(nat \<Rightarrow> fval) \<Rightarrow> nat \<times> (nat \<Rightarrow> fval) \<times> (nat \<Rightarrow> fval) \<Rightarrow>
   nat \<times> (nat \<Rightarrow> fval) \<times> (nat \<Rightarrow> fval)" where
  "calibrate_step tmpdpower st =
     (let processed = fst st;
          bs = GetScalingFactorsKernel FFTUSE tmpdpower dfactors processed (snd st)
      in (processed + powersize div FFTUSE, bs))"

text \<open>
  Welford's update as the specification words it, on the reals: \<open>n\<close> is the 1-indexed
  count of the sample, the state is the mean with the variance accumulator.
\<close>

definition welford_update :: "nat \<Rightarrow> real \<times> real \<Rightarrow> real \<Rightarrow> real \<times> real" where
  "welford_update n mv v =
     (let diff = v - fst mv;
          mean = fst mv + diff * (1 / real n)
      in (mean, snd mv + diff * (v - mean)))"

text \<open>The update run over a list of samples, \<open>n\<close> samples having been seen before.\<close>

fun welford :: "nat \<Rightarrow> real \<times> real \<Rightarrow> real list \<Rightarrow> real \<times> real" where
  "welford n mv [] = mv"
| "welford n mv (v # vs) = welford (Suc n) (welford_update (Suc n) mv v) vs"

text \<open>
  The samples of channel \<open>t\<close> in a list of power blocks, in the order of time: a block
  holds 15625 time steps of 256 channels.
\<close>

definition channel_samples :: "nat \<Rightarrow> (nat \<Rightarrow> real) list \<Rightarrow> real list" where
  "channel_samples t blocks =
     concat (map (\<lambda>P. map (\<lambda>isamp. P (isamp * 256 + t)) [0..<15625]) blocks)"

definition finite_block :: "(nat \<Rightarrow> real) \<Rightarrow> (nat \<Rightarrow> fval)" where
  "finite_block P i = Fin (P i)"


definition constant_power :: "real \<Rightarrow> nat \<Rightarrow> real" where
  "constant_power c i = c"

text \<open>Auxiliary: the body of the loop of a thread.\<close>

definition scaling_step ::
  "nat \<Rightarrow> (nat \<Rightarrow> fval) \<Rightarrow> (nat \<Rightarrow> fval) \<Rightarrow> nat \<Rightarrow> nat \<Rightarrow>
   fval \<times> fval \<times> fval \<Rightarrow> fval \<times> fval \<times> fval" where
  "scaling_step tid indata factors processed =
     (\<lambda>isamp (mean, estd, oldmean).
                     let val = indata (isamp * FFTUSE + tid);
                         diff = fsub val oldmean;
                         mean = fadd oldmean (fmul diff (factors (processed + isamp + 1)));
                         estd = fadd estd (fmul diff (fsub val mean));
                         oldmean = mean
                     in (mean, estd, oldmean))"

text \<open>
  What a thread computes from the entries \<open>b\<close> and \<open>s\<close> of \<open>base\<close> and \<open>stdev\<close> it
  owns; and the standard deviation stored after \<open>n\<close> samples for the accumulator \<open>m2\<close>
  (zero before the first pass).
\<close>

definition scaling_result ::
  "nat \<Rightarrow> (nat \<Rightarrow> fval) \<Rightarrow> (nat \<Rightarrow> fval) \<Rightarrow> nat \<Rightarrow> fval \<Rightarrow> fval \<Rightarrow> fval \<times> fval" where
  "scaling_result tid indata factors processed b s =
     (let r = fold (scaling_step tid indata factors processed) [0..<15625]
                (Fin 0, fmul (fmul s s) (fsub (Fin (real processed)) (Fin 1)), b)
      in (fst r, fsqrt (fdiv (fst (snd r)) (fsub (Fin (real (processed + 15625))) (Fin 1)))))"

definition stdev_of :: "nat \<Rightarrow> real \<Rightarrow> real" where
  "stdev_of n m2 = (if n = 0 then 0 else sqrt (m2 / (real n - 1)))"

section \<open>The orchestrator\<close>

subsection \<open>Input streams\<close>

text \<open>
  A \<open>std::ifstream\<close> as far as \<open>main\<close> uses it: the bytes of the file, the read position
  and the failure flag. \<open>read\<close> of \<open>n\<close> bytes takes what is left; when fewer than \<open>n\<close>
  bytes are left it sets \<open>eofbit\<close> and \<open>failbit\<close>, and on a stream that has failed it
  reads nothing. \<open>tellg\<close> gives -1 on a stream that has failed, and \<open>seekg\<close> does nothing
  on one. (\<open>eofbit\<close> is only ever set together with \<open>failbit\<close> here, so the one flag is
  enough; nothing in \<open>main\<close> clears it.)
\<close>

record ifstream =
  contents :: "8 word list"
  gpos :: nat
  failbit :: bool

definition stream_read :: "nat \<Rightarrow> ifstream \<Rightarrow> 8 word list \<times> ifstream" where
  "stream_read n s =
     (if failbit s then ([], s)
      else let got = take n (drop (gpos s) (contents s))
           in (got, s\<lparr>gpos := gpos s + length got, failbit := length got < n\<rparr>))"

definition tellg :: "ifstream \<Rightarrow> int" where
  "tellg s = (if failbit s then - 1 else int (gpos s))"

definition seekg_beg :: "ifstream \<Rightarrow> ifstream" where
  "seekg_beg s = (if failbit s then s else s\<lparr>gpos := 0\<rparr>)"

definition seekg_end :: "ifstream \<Rightarrow> ifstream" where
  "seekg_end s = (if failbit s then s else s\<lparr>gpos := length (contents s)\<rparr>)"

text \<open>
  Lines 277 to 302 for one input: the stream is opened, the first header is read, and
  the length of the file is taken with \<open>seekg\<close> and \<open>tellg\<close>. The result is the stream
  with the value of \<open>filelength\<close>.
\<close>

definition open_input :: "8 word list \<Rightarrow> ifstream \<times> int" where
  "open_input bytes =
     (let s = \<lparr>contents = bytes, gpos = 0, failbit = False\<rparr>;
          s = snd (stream_read 32 s);
          s = seekg_end s;
          filelength = tellg s;
          s = seekg_beg s
      in (s, filelength))"

text \<open>A read into a host buffer at an offset stores the bytes that were read.\<close>

definition buf_store :: "(nat \<Rightarrow> 8 word) \<Rightarrow> nat \<Rightarrow> 8 word list \<Rightarrow> (nat \<Rightarrow> 8 word)" where
  "buf_store buf off bytes =
     (\<lambda>i. if off \<le> i \<and> i < off + length bytes then bytes ! (i - off) else buf i)"

subsection \<open>The state of a run\<close>

text \<open>
  What is written to the output after its header: one block for each pass of the second
  phase, \<open>powersize\<close> bytes in 8-bit mode, and otherwise the first
  \<open>powersize * nbits / 8\<close> bytes of the \<open>powersize\<close> floats.
\<close>

datatype power_block = ByteBlock "8 word list" | FloatBlock nat "fval list"

text \<open>
  The streams, buffers and counters of \<open>main\<close>. The device buffer \<open>devpower\<close> is written
  as floats or as bytes, never both in one run, and has a field for each. \<open>npasses1\<close>
  and \<open>npasses2\<close> are not in the source: they count the passes of the two loops.
\<close>

record machine =
  filepola :: ifstream
  filepolb :: ifstream
  filelengtha :: int
  filelengthb :: int
  tmppola :: "nat \<Rightarrow> 8 word"
  tmppolb :: "nat \<Rightarrow> 8 word"
  unpacked :: "nat \<Rightarrow> nat \<Rightarrow> fval"
  ffted :: "nat \<Rightarrow> nat \<Rightarrow> cufftComplex"
  tmpdpower :: "nat \<Rightarrow> fval"
  devpower_float :: "nat \<Rightarrow> fval"
  devpower_byte :: "nat \<Rightarrow> 8 word"
  dmeans :: "nat \<Rightarrow> fval"
  dstdevs :: "nat \<Rightarrow> fval"
  nprocessed :: nat
  filfile :: "power_block list"
  npasses1 :: nat
  npasses2 :: nat

text \<open>
  What a run takes from outside: \<open>std::stod\<close> (\<open>None\<close> when it throws), the files by
  name (\<open>None\<close> when a file cannot be opened), the bit depth \<open>ReadFilterbankHeader\<close> finds
  in the configuration file, the transform \<open>cufftExecR2C\<close> of the plan, and the contents
  of the memory that is allocated and not initialised. The device calls are taken to
  succeed.
\<close>

record environment =
  env_stod :: "string \<Rightarrow> fval option"
  env_files :: "string \<Rightarrow> 8 word list option"
  env_nbits :: "string \<Rightarrow> nat"
  env_fft :: "(nat \<Rightarrow> fval) \<Rightarrow> (nat \<Rightarrow> cufftComplex)"
  env_shared :: "nat \<Rightarrow> 8 word"
  env_memory :: machine

subsection \<open>One accumulation\<close>

text \<open>
  Lines 436 to 439 and 500 to 503: a frame is a header of 32 bytes and a payload of 8000
  bytes, from either file. The header goes to \<open>vdifheadpola\<close> and \<open>vdifheadpolb\<close>, which
  only feed the \<open>FrameInfo\<close> log of a debug build.
\<close>

definition read_frame :: "nat \<Rightarrow> machine \<Rightarrow> machine" where
  "read_frame iacc m =
     (let fa = snd (stream_read 32 (filepola m));
          fb = snd (stream_read 32 (filepolb m));
          ra = stream_read 8000 fa;
          rb = stream_read 8000 fb
      in m\<lparr>filepola := snd ra, filepolb := snd rb,
            tmppola := buf_store (tmppola m) (iacc * 8000) (fst ra),
            tmppolb := buf_store (tmppolb m) (iacc * 8000) (fst rb)\<rparr>)"

definition read_accumulation :: "machine \<Rightarrow> machine" where
  "read_accumulation m = fold read_frame [0..<NACCUMULATE] m"

text \<open>
  Lines 442 to 448 and 533 to 539: the buffers are copied to the device, unpacked and
  transformed.
\<close>

definition unpack_transform :: "environment \<Rightarrow> machine \<Rightarrow> machine" where
  "unpack_transform env m =
     (let datapol = (\<lambda>ipol. if ipol = 0 then tmppola m else tmppolb m);
          u = UnpackKernel 50 1024 datapol (unpacked m) toread (env_shared env)
      in m\<lparr>unpacked := u,
            ffted := (\<lambda>ipol. if ipol < 2 then env_fft env (u ipol) else ffted m ipol)\<rparr>)"

subsection \<open>The first phase\<close>

text \<open>Line 434, the condition of the calibration loop.\<close>

definition phase1_cond :: "machine \<Rightarrow> bool" where
  "phase1_cond m =
     (tellg (filepola m) < 5 * int NACCUMULATE * 8032 \<and>
      tellg (filepolb m) < 5 * int NACCUMULATE * 8032)"

text \<open>Lines 435 to 453, the body of the calibration loop.\<close>

definition phase1_body :: "environment \<Rightarrow> machine \<Rightarrow> machine" where
  "phase1_body env m =
     (let m = read_accumulation m;
          m = unpack_transform env m;
          m = m\<lparr>tmpdpower := DetectKernel 25 FFTUSE (ffted m) (tmpdpower m)\<rparr>;
          st = calibrate_step (tmpdpower m) (nprocessed m, dmeans m, dstdevs m)
      in m\<lparr>nprocessed := fst st, dmeans := fst (snd st), dstdevs := snd (snd st),
            npasses1 := npasses1 m + 1\<rparr>)"

partial_function (option) phase1_loop :: "environment \<Rightarrow> machine \<Rightarrow> machine option" where
  "phase1_loop env m =
     (if phase1_cond m then phase1_loop env (phase1_body env m) else Some m)"

subsection \<open>The second phase\<close>

text \<open>Line 495, the condition of the main loop.\<close>

definition phase2_cond :: "machine \<Rightarrow> bool" where
  "phase2_cond m =
     (tellg (filepola m) < filelengtha m - int NACCUMULATE * 8000 \<and>
      tellg (filepolb m) < filelengthb m - int NACCUMULATE * 8000)"

text \<open>
  Lines 498 to 604, the body of the main loop, without the dumps of intermediate data
  and the progress line.
\<close>

definition phase2_body :: "environment \<Rightarrow> nat \<Rightarrow> machine \<Rightarrow> machine" where
  "phase2_body env nbits m =
     (let m = read_accumulation m;
          m = unpack_transform env m;
          m = (if nbits = 8
               then m\<lparr>devpower_byte :=
                        DetectScaleKernel 25 FFTUSE (ffted m) (devpower_byte m) (dmeans m) (dstdevs m)\<rparr>
               else m\<lparr>devpower_float := DetectKernel 25 FFTUSE (ffted m) (devpower_float m)\<rparr>);
          tmppower = (if nbits = 8 then ByteBlock (map (devpower_byte m) [0..<powersize * nbits div 8])
                      else FloatBlock (powersize * nbits div 8) (map (devpower_float m) [0..<powersize]))
      in m\<lparr>filfile := filfile m @ [tmppower], npasses2 := npasses2 m + 1\<rparr>)"

partial_function (option) phase2_loop :: "environment \<Rightarrow> nat \<Rightarrow> machine \<Rightarrow> machine option" where
  "phase2_loop env nbits m =
     (if phase2_cond m then phase2_loop env nbits (phase2_body env nbits m) else Some m)"

subsection \<open>The command line\<close>

record options =
  inpola :: string
  inpolb :: string
  outfil :: string
  config :: string
  readsec :: "fval option"
  scaling :: bool
  saveinter :: bool

datatype failure = Usage | NullArgument | InvalidNumber | CannotOpen

text \<open>
  Lines 217 to 240. An option that takes a value takes the next argument, whatever it
  is; at the end of the arguments that is the null pointer, from which no string can be
  made.
\<close>

fun parse_args :: "(string \<Rightarrow> fval option) \<Rightarrow> string list \<Rightarrow> options \<Rightarrow> failure + options" where
  "parse_args stod [] opts = Inr opts"
| "parse_args stod (arg # rest) opts =
     (if arg = ''-a'' then
        (case rest of [] \<Rightarrow> Inl NullArgument
         | v # rest' \<Rightarrow> parse_args stod rest' (opts\<lparr>inpola := v\<rparr>))
      else if arg = ''-b'' then
        (case rest of [] \<Rightarrow> Inl NullArgument
         | v # rest' \<Rightarrow> parse_args stod rest' (opts\<lparr>inpolb := v\<rparr>))
      else if arg = ''-o'' then
        (case rest of [] \<Rightarrow> Inl NullArgument
         | v # rest' \<Rightarrow> parse_args stod rest' (opts\<lparr>outfil := v\<rparr>))
      else if arg = ''-c'' then
        (case rest of [] \<Rightarrow> Inl NullArgument
         | v # rest' \<Rightarrow> parse_args stod rest' (opts\<lparr>config := v\<rparr>))
      else if arg = ''-s'' then parse_args stod rest (opts\<lparr>scaling := True\<rparr>)
      else if arg = ''-i'' then parse_args stod rest (opts\<lparr>saveinter := True\<rparr>)
      else if arg = ''-r'' then
        (case rest of [] \<Rightarrow> Inl NullArgument
         | v # rest' \<Rightarrow>
             (case stod v of None \<Rightarrow> Inl InvalidNumber
              | Some r \<Rightarrow> parse_args stod rest' (opts\<lparr>readsec := Some r\<rparr>)))
      else parse_args stod rest opts)"

text \<open>The variables of lines 198 to 201 before the arguments are read.\<close>

definition initial_options :: options where
  "initial_options =
     \<lparr>inpola = [], inpolb = [], outfil = [], config = [], readsec = None,
      scaling = False, saveinter = False\<rparr>"

subsection \<open>The run\<close>

text \<open>
  Lines 242 to 608 for the options read: the bit depth, the two inputs, the statistics
  arrays filled with zero, the first phase when scaling is on, the rewind, the second
  phase. The result is the final state, \<open>None\<close> when a loop does not end.
\<close>

definition run :: "environment \<Rightarrow> options \<Rightarrow> (failure + machine) option" where
  "run env opts =
     (let nbits = (if scaling opts then 8 else env_nbits env (config opts))
      in case (env_files env (inpola opts), env_files env (inpolb opts)) of
           (Some bytesa, Some bytesb) \<Rightarrow>
             (let a = open_input bytesa; b = open_input bytesb;
                  m = (env_memory env)\<lparr>filepola := fst a, filepolb := fst b,
                         filelengtha := snd a, filelengthb := snd b,
                         dmeans := zero_floats 0, dstdevs := zero_floats 0,
                         nprocessed := 0, filfile := [], npasses1 := 0, npasses2 := 0\<rparr>
              in case (if scaling opts then phase1_loop env m else Some m) of
                   None \<Rightarrow> None
                 | Some m \<Rightarrow>
                     (let m = m\<lparr>filepola := seekg_beg (filepola m),
                                 filepolb := seekg_beg (filepolb m)\<rparr>
                      in case phase2_loop env nbits m of
                           None \<Rightarrow> None
                         | Some m \<Rightarrow> Some (Inr m)))
         | _ \<Rightarrow> Some (Inl CannotOpen))"

text \<open>\<open>main\<close>: the usage exit of line 203, the arguments, the run.\<close>

definition main :: "environment \<Rightarrow> string list \<Rightarrow> (failure + machine) option" where
  "main env argv =
     (if length argv < 5 then Some (Inl Usage)
      else case parse_args (env_stod env) argv initial_options of
             Inl e \<Rightarrow> Some (Inl e)
           | Inr opts \<Rightarrow> run env opts)"

subsection \<open>Auxiliary notions of the orchestrator's proofs\<close>

text \<open>What the reads of one frame, and of one accumulation, do to a stream.\<close>

definition frame_stream :: "ifstream \<Rightarrow> ifstream" where
  "frame_stream s = snd (stream_read 8000 (snd (stream_read 32 s)))"

definition acc_stream :: "ifstream \<Rightarrow> ifstream" where
  "acc_stream s = (frame_stream ^^ 4000) s"

text \<open>
  A list of arguments after which the parser reads an option: read as the parser reads
  it, it leaves no option waiting for its value.
\<close>

fun args_complete :: "string list \<Rightarrow> bool" where
  "args_complete [] = True"
| "args_complete [arg] = (arg \<notin> set [''-a'', ''-b'', ''-o'', ''-c'', ''-r''])"
| "args_complete (arg # v # rest) =
     (if arg \<in> set [''-a'', ''-b'', ''-o'', ''-c'', ''-r''] then args_complete rest
      else args_complete (v # rest))"

text \<open>Options that agree in all but \<open>readsec\<close>, and results of the parser that do.\<close>

definition same_run :: "options \<Rightarrow> options \<Rightarrow> bool" where
  "same_run p q =
     (inpola p = inpola q \<and> inpolb p = inpolb q \<and> outfil p = outfil q \<and>
      config p = config q \<and> scaling p = scaling q \<and> saveinter p = saveinter q)"

definition same_parse :: "failure + options \<Rightarrow> failure + options \<Rightarrow> bool" where
  "same_parse x y =
     (case x of Inl e \<Rightarrow> y = Inl e
      | Inr p \<Rightarrow> (case y of Inl e \<Rightarrow> False | Inr q \<Rightarrow> same_run p q))"

text \<open>
  Inputs and an environment for the closed examples: files of zero bytes, one and five
  accumulations long and one header long; a memory of zeros; a \<open>stod\<close> that reads
  \<open>1\<close> and \<open>2\<close>; two files of one accumulation that can be opened by name.
\<close>

definition one_accumulation :: "8 word list" where
  "one_accumulation = replicate (4000 * 8032) 0"

definition five_accumulations :: "8 word list" where
  "five_accumulations = replicate (5 * 4000 * 8032) 0"

definition header_only :: "8 word list" where
  "header_only = replicate 32 0"

definition example_memory :: machine where
  "example_memory =
     \<lparr>filepola = \<lparr>contents = [], gpos = 0, failbit = False\<rparr>,
      filepolb = \<lparr>contents = [], gpos = 0, failbit = False\<rparr>,
      filelengtha = 0, filelengthb = 0,
      tmppola = zero_bytes, tmppolb = zero_bytes,
      unpacked = zero_floats, ffted = zero_spectra, tmpdpower = zero_floats 0,
      devpower_float = zero_floats 0, devpower_byte = zero_bytes,
      dmeans = zero_floats 0, dstdevs = zero_floats 0,
      nprocessed = 0, filfile = [], npasses1 = 0, npasses2 = 0\<rparr>"

definition start_machine :: "8 word list \<Rightarrow> 8 word list \<Rightarrow> machine" where
  "start_machine bytesa bytesb =
     example_memory\<lparr>filepola := fst (open_input bytesa), filepolb := fst (open_input bytesb),
                     filelengtha := snd (open_input bytesa),
                     filelengthb := snd (open_input bytesb)\<rparr>"

definition example_stod :: "string \<Rightarrow> fval option" where
  "example_stod v = (if v = ''1'' then Some (Fin 1) else if v = ''2'' then Some (Fin 2) else None)"

definition example_files :: "string \<Rightarrow> 8 word list option" where
  "example_files name =
     (if name = ''a.vdif'' \<or> name = ''b.vdif'' then Some one_accumulation else None)"

definition example_nbits :: "string \<Rightarrow> nat" where
  "example_nbits name = 32"

definition example_fft :: "(nat \<Rightarrow> fval) \<Rightarrow> (nat \<Rightarrow> cufftComplex)" where
  "example_fft u = zero_spectra 0"

definition example_env :: environment where
  "example_env =
     \<lparr>env_stod = example_stod, env_files = example_files, env_nbits = example_nbits,
      env_fft = example_fft, env_shared = zero_bytes, env_memory = example_memory\<rparr>"





section \<open>Properties of the unpacker\<close>

subsection \<open>Decoding one byte\<close>



















subsection \<open>The kernel\<close>

lemma upt2: "[0..<2] = [0, 1 :: nat]"
  by (simp add: upt_rec)




















section \<open>The claims about the unpacker\<close>










section \<open>Properties of the power detector\<close>

lemma fold_fadd_foldl:
  "fold (\<lambda>x acc. fadd acc (g x)) xs a = foldl fadd a (map g xs)"
  by (induction xs arbitrary: a) simp_all

lemma detect_accumulate_foldl:
  "detect_accumulate inp inidx v =
     foldl fadd v (concat (map (\<lambda>ipol. map (\<lambda>iavg. squared_magnitude (inp ipol (inidx + iavg * 257)))
                                    [0..<16]) [0..<2]))"
  by (simp add: detect_accumulate_def Let_def FFTOUT_def TIMEAVG_def upt2
      fold_fadd_foldl squared_magnitude_def)

lemma detect_value_raw_power:
  "detect_value inp (s * 4112 + k) = raw_power inp s k"
proof -
  have e: "(16 * s + iavg) * 257 + k = s * 4112 + k + iavg * 257" for iavg
    by (simp add: algebra_simps)
  show ?thesis
    unfolding raw_power_def e detect_value_def detect_accumulate_foldl TIMESCALE_def
    by simp
qed

lemma detect_step_simp:
  "detect_step emit inp isamp (i, out, Fin 0, outp) =
     (i + 4112, out + 256, Fin 0, outp(out := emit (detect_value inp i)))"
  by (simp add: detect_step_def detect_value_def Let_def FFTOUT_def TIMEAVG_def FFTUSE_def)

lemma detect_loop:
  "\<exists>outp'. fold (detect_step emit inp) [0..<n] (in0, out0, Fin 0, outp) =
            (in0 + n * 4112, out0 + n * 256, Fin 0, outp') \<and>
     (\<forall>j. outp' j =
        (if out0 \<le> j \<and> (j - out0) mod 256 = 0 \<and> (j - out0) div 256 < n
         then emit (detect_value inp (in0 + (j - out0) div 256 * 4112)) else outp j))"
proof (induction n)
  case 0
  then show ?case by simp
next
  case (Suc n)
  then obtain o1 where f: "fold (detect_step emit inp) [0..<n] (in0, out0, Fin 0, outp) =
            (in0 + n * 4112, out0 + n * 256, Fin 0, o1)"
    and o1: "\<And>j. o1 j =
        (if out0 \<le> j \<and> (j - out0) mod 256 = 0 \<and> (j - out0) div 256 < n
         then emit (detect_value inp (in0 + (j - out0) div 256 * 4112)) else outp j)"
    by auto
  have step: "fold (detect_step emit inp) [0..<Suc n] (in0, out0, Fin 0, outp) =
     (in0 + Suc n * 4112, out0 + Suc n * 256, Fin 0,
      o1(out0 + n * 256 := emit (detect_value inp (in0 + n * 4112))))"
    using f by (simp add: detect_step_simp)
  have "(o1(out0 + n * 256 := emit (detect_value inp (in0 + n * 4112)))) j =
        (if out0 \<le> j \<and> (j - out0) mod 256 = 0 \<and> (j - out0) div 256 < Suc n
         then emit (detect_value inp (in0 + (j - out0) div 256 * 4112)) else outp j)" for j
  proof (cases "j = out0 + n * 256")
    case True
    then show ?thesis by simp
  next
    case False
    have "\<not> (out0 \<le> j \<and> (j - out0) mod 256 = 0 \<and> (j - out0) div 256 = n)"
    proof
      assume a: "out0 \<le> j \<and> (j - out0) mod 256 = 0 \<and> (j - out0) div 256 = n"
      then have "j - out0 = n * 256"
        using div_mult_mod_eq [of "j - out0" 256] by simp
      then show False using a False by simp
    qed
    then have "(out0 \<le> j \<and> (j - out0) mod 256 = 0 \<and> (j - out0) div 256 < Suc n) =
          (out0 \<le> j \<and> (j - out0) mod 256 = 0 \<and> (j - out0) div 256 < n)"
      by (auto simp: less_Suc_eq)
    then show ?thesis using False by (simp add: o1)
  qed
  then show ?case unfolding step by blast
qed

lemma lane_offset:
  fixes j :: nat
  assumes "B \<le> j div 256" "j mod 256 = c"
  shows "j - (B * 256 + c) = (j div 256 - B) * 256" "B * 256 + c \<le> j"
proof -
  have j: "j = j div 256 * 256 + c" using assms(2) div_mult_mod_eq [of j 256] by simp
  obtain d where d: "j div 256 = B + d" using assms(1) le_Suc_ex by blast
  have "j = B * 256 + c + d * 256" using j d by (simp add: algebra_simps)
  then show "j - (B * 256 + c) = (j div 256 - B) * 256" "B * 256 + c \<le> j"
    using d by simp_all
qed

lemma lane_index:
  fixes j :: nat
  assumes "c < 256"
  shows "(B * 256 + c \<le> j \<and> (j - (B * 256 + c)) mod 256 = 0 \<and> (j - (B * 256 + c)) div 256 < n) =
         (B \<le> j div 256 \<and> j div 256 < B + n \<and> j mod 256 = c)"
proof
  assume a: "B * 256 + c \<le> j \<and> (j - (B * 256 + c)) mod 256 = 0 \<and> (j - (B * 256 + c)) div 256 < n"
  define m where "m = (j - (B * 256 + c)) div 256"
  have "j - (B * 256 + c) = m * 256"
    using a div_mult_mod_eq [of "j - (B * 256 + c)" 256] by (simp add: m_def)
  moreover have "B * 256 + c \<le> j" using a by simp
  ultimately have "j = B * 256 + c + m * 256" by linarith
  then have j: "j = c + (B + m) * 256" by (simp add: algebra_simps)
  have "j div 256 = B + m + c div 256" unfolding j by (rule div_mult_self1) simp
  then have q: "j div 256 = B + m" using assms by simp
  have "j mod 256 = c mod 256" unfolding j by (rule mod_mult_self1)
  then have r: "j mod 256 = c" using assms by simp
  show "B \<le> j div 256 \<and> j div 256 < B + n \<and> j mod 256 = c"
    using q r a by (simp add: m_def)
next
  assume a: "B \<le> j div 256 \<and> j div 256 < B + n \<and> j mod 256 = c"
  then have b: "B \<le> j div 256" "j mod 256 = c" by simp_all
  note l = lane_offset [OF b]
  have "(j - (B * 256 + c)) div 256 = j div 256 - B" unfolding l(1) by simp
  moreover have "j div 256 - B < n" using a by linarith
  moreover have "(j - (B * 256 + c)) mod 256 = 0" unfolding l(1) by simp
  ultimately show "B * 256 + c \<le> j \<and> (j - (B * 256 + c)) mod 256 = 0 \<and> (j - (B * 256 + c)) div 256 < n"
    using l(2) by simp
qed

lemma detect_thread_apply:
  assumes "tid < 256"
  shows "detect_thread emit bid tid inp outp j =
     (if bid * 625 \<le> j div 256 \<and> j div 256 < bid * 625 + 625 \<and> j mod 256 = 255 - tid
      then emit (detect_value inp (j div 256 * 4112 + tid + 1)) else outp j)"
proof -
  define B where "B = bid * 625"
  define c where "c = 255 - tid"
  have c: "c < 256" by (simp add: c_def)
  define in0 where "in0 = B * 4112 + tid + 1"
  have o0: "bid * 625 * 256 + 256 - tid - 1 = B * 256 + c"
    using assms by (simp add: B_def c_def)
  have i0: "bid * 625 * 16 * 257 + tid + 1 = in0" by (simp add: in0_def B_def)
  have t: "detect_thread emit bid tid inp outp =
      snd (snd (snd (fold (detect_step emit inp) [0..<625] (in0, B * 256 + c, Fin 0, outp))))"
    unfolding detect_thread_def detect_step_def PERBLOCK_def TIMEAVG_def FFTOUT_def
        FFTUSE_def o0 i0 ..
  obtain outp' where f: "fold (detect_step emit inp) [0..<625] (in0, B * 256 + c, Fin 0, outp) =
            (in0 + 625 * 4112, B * 256 + c + 625 * 256, Fin 0, outp')"
    and o: "\<And>j. outp' j =
        (if B * 256 + c \<le> j \<and> (j - (B * 256 + c)) mod 256 = 0 \<and> (j - (B * 256 + c)) div 256 < 625
         then emit (detect_value inp (in0 + (j - (B * 256 + c)) div 256 * 4112)) else outp j)"
    using detect_loop [of emit inp 625 in0 "B * 256 + c" outp] by blast
  have r: "detect_thread emit bid tid inp outp j = outp' j" unfolding t f by simp
  have e: "outp' j =
     (if B \<le> j div 256 \<and> j div 256 < B + 625 \<and> j mod 256 = c
      then emit (detect_value inp (in0 + (j - (B * 256 + c)) div 256 * 4112)) else outp j)"
    unfolding o lane_index [OF c] ..
  have "outp' j =
     (if B \<le> j div 256 \<and> j div 256 < B + 625 \<and> j mod 256 = c
      then emit (detect_value inp (j div 256 * 4112 + tid + 1)) else outp j)"
  proof (cases "B \<le> j div 256 \<and> j div 256 < B + 625 \<and> j mod 256 = c")
    case True
    then have b: "B \<le> j div 256" "j mod 256 = c" by simp_all
    have "(j - (B * 256 + c)) div 256 = j div 256 - B"
      unfolding lane_offset(1) [OF b] by simp
    then have "in0 + (j - (B * 256 + c)) div 256 * 4112 = j div 256 * 4112 + tid + 1"
      using b(1) by (simp add: in0_def algebra_simps)
    then show ?thesis unfolding e by (simp only:)
  next
    case False
    then show ?thesis unfolding e by (simp only: if_False)
  qed
  then show ?thesis unfolding r by (simp only: B_def c_def)
qed

lemma detect_block_fold:
  assumes "n \<le> 256"
  shows "fold (\<lambda>tid outp. detect_thread (E tid) bid tid inp outp) [0..<n] outp j =
     (if bid * 625 \<le> j div 256 \<and> j div 256 < bid * 625 + 625 \<and> 255 - j mod 256 < n
      then detect_out E inp j else outp j)"
  using assms
proof (induction n)
  case 0
  then show ?case by simp
next
  case (Suc n)
  have n: "n < 256" "n \<le> 256" using Suc.prems by simp_all
  have r: "j mod 256 < 256" by simp
  have m: "(j mod 256 = 255 - n) = (255 - j mod 256 = n)" using n(1) r by linarith
  have step: "fold (\<lambda>tid outp. detect_thread (E tid) bid tid inp outp) [0..<Suc n] outp j =
      detect_thread (E n) bid n inp
        (fold (\<lambda>tid outp. detect_thread (E tid) bid tid inp outp) [0..<n] outp) j"
    by simp
  show ?case
  proof (cases "255 - j mod 256 = n")
    case True
    have "n + 1 = 256 - j mod 256" using True r by linarith
    then have i: "j div 256 * 4112 + n + 1 = j div 256 * 4112 + (256 - j mod 256)" by simp
    have v: "E n (detect_value inp (j div 256 * 4112 + n + 1)) = detect_out E inp j"
      unfolding detect_out_def True i ..
    show ?thesis
      unfolding step detect_thread_apply [OF n(1)] m v Suc.IH [OF n(2)]
      using True by simp
  next
    case False
    then have "(255 - j mod 256 < Suc n) = (255 - j mod 256 < n)" by linarith
    then show ?thesis
      unfolding step detect_thread_apply [OF n(1)] m Suc.IH [OF n(2)]
      using False by simp
  qed
qed

lemma detect_block_apply:
  "detect_block E bid inp outp j =
     (if bid * 625 \<le> j div 256 \<and> j div 256 < bid * 625 + 625
      then detect_out E inp j else outp j)"
proof -
  have "255 - j mod 256 < 256" by simp
  then show ?thesis
    unfolding detect_block_def detect_block_fold [OF order_refl] by simp
qed

lemma detect_grid_fold:
  "fold (\<lambda>bid outp. detect_block E bid inp outp) [0..<n] outp j =
     (if j div 256 < n * 625 then detect_out E inp j else outp j)"
proof (induction n)
  case 0
  then show ?case by simp
next
  case (Suc n)
  have step: "fold (\<lambda>bid outp. detect_block E bid inp outp) [0..<Suc n] outp j =
     detect_block E n inp (fold (\<lambda>bid outp. detect_block E bid inp outp) [0..<n] outp) j"
    by simp
  have c: "(j div 256 < Suc n * 625) =
      (j div 256 < n * 625 \<or> (n * 625 \<le> j div 256 \<and> j div 256 < n * 625 + 625))"
    by auto
  have "detect_block E n inp (fold (\<lambda>bid outp. detect_block E bid inp outp) [0..<n] outp) j =
     (if n * 625 \<le> j div 256 \<and> j div 256 < n * 625 + 625 then detect_out E inp j
      else fold (\<lambda>bid outp. detect_block E bid inp outp) [0..<n] outp j)"
    by (rule detect_block_apply)
  also have "\<dots> = (if n * 625 \<le> j div 256 \<and> j div 256 < n * 625 + 625 then detect_out E inp j
      else if j div 256 < n * 625 then detect_out E inp j else outp j)"
    by (simp only: Suc.IH)
  also have "\<dots> = (if j div 256 < Suc n * 625 then detect_out E inp j else outp j)"
    unfolding c by simp
  finally show ?case unfolding step .
qed

lemma DetectKernel_apply:
  "DetectKernel 25 FFTUSE inp outp j =
     (if j div 256 < 15625 then detect_value inp (j div 256 * 4112 + (256 - j mod 256))
      else outp j)"
proof -
  have "DetectKernel 25 FFTUSE inp outp =
      fold (\<lambda>bid outp. detect_block (\<lambda>tid outvalue. outvalue) bid inp outp) [0..<25] outp"
    unfolding DetectKernel_def FFTUSE_def detect_block_def ..
  then show ?thesis
    unfolding detect_grid_fold by (simp add: detect_out_def)
qed

lemma DetectScaleKernel_apply:
  "DetectScaleKernel 25 FFTUSE inp outp means stdevs j =
     (if j div 256 < 15625
      then scale_sample (detect_value inp (j div 256 * 4112 + (256 - j mod 256)))
             (means (j mod 256)) (stdevs (j mod 256))
      else outp j)"
proof -
  have "DetectScaleKernel 25 FFTUSE inp outp means stdevs =
      fold (\<lambda>bid outp. detect_block (\<lambda>tid outvalue. scale_sample outvalue (means (256 - tid - 1))
                                    (stdevs (256 - tid - 1))) bid inp outp) [0..<25] outp"
    unfolding DetectScaleKernel_def FFTUSE_def detect_block_def ..
  moreover have "256 - (255 - j mod 256) - 1 = j mod 256"
  proof -
    have "j mod 256 < 256" by simp
    then show ?thesis by linarith
  qed
  ultimately show ?thesis
    unfolding detect_grid_fold by (simp add: detect_out_def)
qed

lemma channel_index:
  fixes k s :: nat
  assumes "1 \<le> k" "k \<le> 256"
  shows "(s * 256 + (255 - (k - 1))) div 256 = s" "(s * 256 + (255 - (k - 1))) mod 256 = 256 - k"
proof -
  have c: "255 - (k - 1) = 256 - k" "256 - k < 256" using assms by simp_all
  have "(256 - k + s * 256) div 256 = s + (256 - k) div 256" by (rule div_mult_self1) simp
  then show "(s * 256 + (255 - (k - 1))) div 256 = s" using c by (simp add: add.commute)
  have "(256 - k + s * 256) mod 256 = (256 - k) mod 256" by (rule mod_mult_self1)
  then show "(s * 256 + (255 - (k - 1))) mod 256 = 256 - k" using c by (simp add: add.commute)
qed

lemma DetectKernel_channel:
  assumes "s < 15625" "1 \<le> k" "k \<le> 256"
  shows "DetectKernel 25 FFTUSE inp outp (s * 256 + (255 - (k - 1))) = raw_power inp s k"
proof -
  have "256 - (256 - k) = k" using assms by simp
  then show ?thesis
    unfolding DetectKernel_apply channel_index [OF assms(2,3)]
    using assms(1) by (simp add: detect_value_raw_power)
qed

lemma DetectScaleKernel_channel:
  assumes "s < 15625" "1 \<le> k" "k \<le> 256"
  shows "DetectScaleKernel 25 FFTUSE inp outp means stdevs (s * 256 + (255 - (k - 1))) =
     scale_sample (raw_power inp s k) (means (255 - (k - 1))) (stdevs (255 - (k - 1)))"
proof -
  have "256 - (256 - k) = k" "255 - (k - 1) = 256 - k" using assms by simp_all
  then show ?thesis
    unfolding DetectScaleKernel_apply channel_index [OF assms(2,3)]
    using assms(1) by (simp add: detect_value_raw_power)
qed



lemma detect_value_cong:
  assumes "\<And>ipol iavg. iavg < 16 \<Longrightarrow> inp ipol (i + iavg * 257) = inp' ipol (i + iavg * 257)"
  shows "detect_value inp i = detect_value inp' i"
proof -
  have m: "map (\<lambda>iavg. squared_magnitude (inp ipol (i + iavg * 257))) [0..<16] =
        map (\<lambda>iavg. squared_magnitude (inp' ipol (i + iavg * 257))) [0..<16]" for ipol
    by (rule map_cong) (simp_all add: assms)
  show ?thesis unfolding detect_value_def detect_accumulate_foldl m ..
qed

lemma bin_not_dc:
  fixes q r iavg :: nat
  assumes "r < 256"
  shows "(q * 4112 + (256 - r) + iavg * 257) mod 257 \<noteq> 0"
proof -
  have "q * 4112 + (256 - r) + iavg * 257 = (256 - r) + (q * 16 + iavg) * 257"
    by (simp add: algebra_simps)
  then have "(q * 4112 + (256 - r) + iavg * 257) mod 257 = (256 - r) mod 257"
    by (simp only: mod_mult_self1)
  then show ?thesis using assms by simp
qed

lemma detect_value_dc:
  assumes "\<And>ipol i. i mod 257 \<noteq> 0 \<Longrightarrow> inp' ipol i = inp ipol i"
  shows "detect_value inp' (j div 256 * 4112 + (256 - j mod 256)) =
         detect_value inp (j div 256 * 4112 + (256 - j mod 256))"
proof (rule detect_value_cong)
  fix ipol iavg :: nat
  have "j mod 256 < 256" by simp
  from bin_not_dc [OF this] assms
  show "inp' ipol (j div 256 * 4112 + (256 - j mod 256) + iavg * 257) =
        inp ipol (j div 256 * 4112 + (256 - j mod 256) + iavg * 257)"
    by blast
qed

lemma DetectKernel_dc:
  assumes "\<And>ipol i. i mod 257 \<noteq> 0 \<Longrightarrow> inp' ipol i = inp ipol i"
  shows "DetectKernel 25 FFTUSE inp' outp = DetectKernel 25 FFTUSE inp outp"
proof
  fix j
  show "DetectKernel 25 FFTUSE inp' outp j = DetectKernel 25 FFTUSE inp outp j"
    using detect_value_dc [of inp' inp j, OF assms] by (simp add: DetectKernel_apply)
qed

lemma DetectScaleKernel_dc:
  assumes "\<And>ipol i. i mod 257 \<noteq> 0 \<Longrightarrow> inp' ipol i = inp ipol i"
  shows "DetectScaleKernel 25 FFTUSE inp' outp means stdevs =
         DetectScaleKernel 25 FFTUSE inp outp means stdevs"
proof
  fix j
  show "DetectScaleKernel 25 FFTUSE inp' outp means stdevs j =
        DetectScaleKernel 25 FFTUSE inp outp means stdevs j"
    using detect_value_dc [of inp' inp j, OF assms] by (simp add: DetectScaleKernel_apply)
qed









section \<open>The claims about the power detector\<close>

text \<open>
  C3. For every output time step \<open>s\<close> (there are 15625 in an accumulation) and every
  transform bin \<open>k\<close> from 1 to 256, both detectors work on the raw power of bin \<open>k\<close> at
  step \<open>s\<close>, the sum of \<open>real\<^sup>2 + imag\<^sup>2\<close> over both polarisations and 16 consecutive
  spectra times 1/8, and store it for the output channel \<open>255 - (k - 1)\<close> of step \<open>s\<close>:
  \<open>DetectKernel\<close> as it is, \<open>DetectScaleKernel\<close> scaled with the statistics of that
  channel. Bin 0 of a spectrum is never read: inputs that differ in the bins 0 only give
  the same outputs.
\<close>

theorem detector_channel_power:
  "s < 15625 \<Longrightarrow> 1 \<le> k \<Longrightarrow> k \<le> 256 \<Longrightarrow>
   DetectKernel 25 FFTUSE inp outp (s * 256 + (255 - (k - 1))) = raw_power inp s k \<and>
   DetectScaleKernel 25 FFTUSE inp outb means stdevs (s * 256 + (255 - (k - 1))) =
     scale_sample (raw_power inp s k) (means (255 - (k - 1))) (stdevs (255 - (k - 1))) \<and>
   ((\<forall>ipol i. i mod 257 \<noteq> 0 \<longrightarrow> inp' ipol i = inp ipol i) \<longrightarrow>
      DetectKernel 25 FFTUSE inp' outp = DetectKernel 25 FFTUSE inp outp \<and>
      DetectScaleKernel 25 FFTUSE inp' outb means stdevs =
        DetectScaleKernel 25 FFTUSE inp outb means stdevs)"
  using DetectKernel_channel [of s k inp outp]
    DetectScaleKernel_channel [of s k inp outb means stdevs]
    DetectKernel_dc [of inp' inp outp] DetectScaleKernel_dc [of inp' inp outb means stdevs]
  by blast

theorem detector_channel_power_witness:
  "(0::nat) < 15625 \<and> (1::nat) \<le> 1 \<and> (1::nat) \<le> 256 \<and>
   DetectKernel 25 FFTUSE zero_spectra (zero_floats 0) (0 * 256 + (255 - (1 - 1))) =
     raw_power zero_spectra 0 1 \<and>
   DetectScaleKernel 25 FFTUSE zero_spectra zero_bytes (zero_floats 0) unit_floats
       (0 * 256 + (255 - (1 - 1))) =
     scale_sample (raw_power zero_spectra 0 1) (zero_floats 0 (255 - (1 - 1)))
       (unit_floats (255 - (1 - 1))) \<and>
   DetectKernel 25 FFTUSE zero_spectra (zero_floats 0) =
     DetectKernel 25 FFTUSE zero_spectra (zero_floats 0) \<and>
   DetectScaleKernel 25 FFTUSE zero_spectra zero_bytes (zero_floats 0) unit_floats =
     DetectScaleKernel 25 FFTUSE zero_spectra zero_bytes (zero_floats 0) unit_floats"
proof -
  have h: "(0::nat) < 15625" "(1::nat) \<le> 1" "(1::nat) \<le> 256" by simp_all
  have d: "\<forall>ipol i. i mod 257 \<noteq> 0 \<longrightarrow> zero_spectra ipol i = zero_spectra ipol i" by simp
  show ?thesis
    using h d detector_channel_power [OF h, of zero_spectra "zero_floats 0" zero_bytes
        "zero_floats 0" unit_floats zero_spectra]
    by (simp only: simp_thms)
qed





text \<open>
  C9. The quantizer divides by the standard deviation without a guard. With a standard
  deviation of zero the quotient is an infinity or a NaN, and the stored code is 255
  (power above the mean) or 0, never the midpoint 128, also for a power equal to the
  mean.
\<close>

theorem quantizer_zero_stdev:
  "scale_sample p mean (Fin 0) \<noteq> 128 \<and>
   (scale_sample p mean (Fin 0) = 0 \<or> scale_sample p mean (Fin 0) = 255) \<and>
   fdiv (fsub (Fin a) (Fin a)) (Fin 0) = NaN \<and>
   scale_sample (Fin a) (Fin a) (Fin 0) = 0"
proof -
  have d: "fdiv (fsub p mean) (Fin 0) = NaN \<or> fdiv (fsub p mean) (Fin 0) = PInf \<or>
           fdiv (fsub p mean) (Fin 0) = NInf"
    by (cases p; cases mean) (auto simp: fsub_def inf_of_sign_def)
  have s: "scale_sample p mean (Fin 0) = 0 \<or> scale_sample p mean (Fin 0) = 255"
    using d by (auto simp: scale_sample_def float2int_ru_def inf_of_sign_def Let_def)
  have a: "fdiv (fsub (Fin a) (Fin a)) (Fin 0) = NaN"
    by (simp add: fsub_def inf_of_sign_def)
  have "scale_sample (Fin a) (Fin a) (Fin 0) = 0"
    by (simp add: scale_sample_def a float2int_ru_def Let_def)
  then show ?thesis using s a by auto
qed

section \<open>Properties of the statistics estimator\<close>

lemma welford_append:
  "welford n mv (xs @ ys) = welford (n + length xs) (welford n mv xs) ys"
  by (induction xs arbitrary: n mv) simp_all

lemma welford_snoc:
  "welford n mv (xs @ [x]) = welford_update (Suc (n + length xs)) (welford n mv xs) x"
  by (simp add: welford_append)

lemma welford_update_nonneg:
  assumes "0 \<le> snd mv"
  shows "0 \<le> snd (welford_update (Suc n) mv v)"
proof -
  define d where "d = v - fst mv"
  have "v - (fst mv + d * (1 / real (Suc n))) = d * (real n / real (Suc n))"
    by (simp add: d_def field_simps)
  then have "d * (v - (fst mv + d * (1 / real (Suc n)))) = d * d * (real n / real (Suc n))"
    by simp
  moreover have "0 \<le> d * d * (real n / real (Suc n))" by simp
  ultimately show ?thesis
    using assms by (simp add: welford_update_def Let_def d_def)
qed

lemma welford_nonneg:
  "0 \<le> snd mv \<Longrightarrow> 0 \<le> snd (welford n mv xs)"
  by (induction xs arbitrary: n mv) (simp_all add: welford_update_nonneg)

lemma dfactors_reciprocal: "dfactors (Suc n) = Fin (1 / real (Suc n))"
  by (simp add: dfactors_def FactorFunctor_def)

lemma scaling_step_finite:
  "scaling_step tid (finite_block P) dfactors processed isamp (m, Fin e, Fin om) =
     (let mv = welford_update (Suc (processed + isamp)) (om, e) (P (isamp * 256 + tid))
      in (Fin (fst mv), Fin (snd mv), Fin (fst mv)))"
  using dfactors_reciprocal [of "processed + isamp"]
  by (simp add: scaling_step_def finite_block_def Let_def welford_update_def fsub_def
      FFTUSE_def)

lemma scaling_loop:
  "fold (scaling_step tid (finite_block P) dfactors processed) [0..<n] (m, Fin e, Fin om) =
     (let mv = welford processed (om, e) (map (\<lambda>isamp. P (isamp * 256 + tid)) [0..<n])
      in (if n = 0 then m else Fin (fst mv), Fin (snd mv), Fin (fst mv)))"
proof (induction n)
  case 0
  then show ?case by simp
next
  case (Suc n)
  show ?case
    by (simp add: Suc.IH Let_def scaling_step_finite welford_snoc del: welford.simps)
qed

lemma scaling_thread_result:
  "scaling_thread tid indata factors processed bs =
     ((fst bs)(tid := fst (scaling_result tid indata factors processed (fst bs tid) (snd bs tid))),
      (snd bs)(tid := snd (scaling_result tid indata factors processed (fst bs tid) (snd bs tid))))"
  unfolding scaling_thread_def scaling_result_def scaling_step_def [symmetric]
  by (simp add: Let_def)

lemma scaling_kernel_fold:
  "fold (\<lambda>tid bs. scaling_thread tid indata factors processed bs) [0..<n] bs =
     (\<lambda>t. if t < n then fst (scaling_result t indata factors processed (fst bs t) (snd bs t))
           else fst bs t,
      \<lambda>t. if t < n then snd (scaling_result t indata factors processed (fst bs t) (snd bs t))
           else snd bs t)"
proof (induction n)
  case 0
  then show ?case by simp
next
  case (Suc n)
  have step: "fold (\<lambda>tid bs. scaling_thread tid indata factors processed bs) [0..<Suc n] bs =
      scaling_thread n indata factors processed
        (fold (\<lambda>tid bs. scaling_thread tid indata factors processed bs) [0..<n] bs)"
    by simp
  show ?case
    unfolding step Suc.IH by (simp add: scaling_thread_result fun_eq_iff less_Suc_eq)
qed

lemma fsqrt_nonneg: "0 \<le> a \<Longrightarrow> fsqrt (Fin a) = Fin (sqrt a)"
  by simp

lemma fdiv_finite: "b \<noteq> 0 \<Longrightarrow> fdiv (Fin a) (Fin b) = Fin (a / b)"
  by simp

lemma scaling_result_finite:
  assumes "0 \<le> sd * sd * (real processed - 1)"
  shows "scaling_result tid (finite_block P) dfactors processed (Fin bm) (Fin sd) =
     (let mv = welford processed (bm, sd * sd * (real processed - 1))
                 (map (\<lambda>isamp. P (isamp * 256 + tid)) [0..<15625])
      in (Fin (fst mv), Fin (sqrt (snd mv / (real processed + 15624)))))"
proof -
  define e where "e = sd * sd * (real processed - 1)"
  define mv where "mv = welford processed (bm, e) (map (\<lambda>isamp. P (isamp * 256 + tid)) [0..<15625])"
  have s: "fmul (fmul (Fin sd) (Fin sd)) (fsub (Fin (real processed)) (Fin 1)) = Fin e"
    by (simp add: fsub_def e_def)
  have l: "fold (scaling_step tid (finite_block P) dfactors processed) [0..<15625]
      (Fin 0, Fin e, Fin bm) = (Fin (fst mv), Fin (snd mv), Fin (fst mv))"
    unfolding scaling_loop mv_def by (simp add: Let_def)
  have n: "0 \<le> snd mv" unfolding mv_def using assms by (simp add: welford_nonneg e_def)
  have d: "real (processed + 15625) - 1 = real processed + 15624" by simp
  have p: "real processed + 15624 \<noteq> 0"
  proof -
    have "0 < real processed + 15624" by (simp add: add_nonneg_pos)
    then show ?thesis by simp
  qed
  have q: "0 \<le> snd mv / (real processed + 15624)" using n by simp
  have f: "fsub (Fin (real (processed + 15625))) (Fin 1) = Fin (real processed + 15624)"
    by (simp add: fsub_def)
  have "fsqrt (fdiv (Fin (snd mv)) (fsub (Fin (real (processed + 15625))) (Fin 1))) =
      Fin (sqrt (snd mv / (real processed + 15624)))"
    unfolding f fdiv_finite [OF p] fsqrt_nonneg [OF q] ..
  then show ?thesis
    unfolding scaling_result_def s l Let_def e_def [symmetric] mv_def [symmetric] by simp
qed


lemma length_channel_samples: "length (channel_samples t blocks) = length blocks * 15625"
  by (induction blocks) (simp_all add: channel_samples_def)

lemma channel_samples_snoc:
  "channel_samples t (blocks @ [P]) =
     channel_samples t blocks @ map (\<lambda>isamp. P (isamp * 256 + t)) [0..<15625]"
  by (simp add: channel_samples_def)

lemma calibrate_step_apply:
  "calibrate_step indata (processed, bs) =
     (processed + 15625,
      \<lambda>t. if t < 256 then fst (scaling_result t indata dfactors processed (fst bs t) (snd bs t))
           else fst bs t,
      \<lambda>t. if t < 256 then snd (scaling_result t indata dfactors processed (fst bs t) (snd bs t))
           else snd bs t)"
proof -
  have "powersize div FFTUSE = 15625"
    by (simp add: powersize_def unpackedsize_def NACCUMULATE_def VDIFSIZE_def UNPACKFACTOR_def
        FFTUSE_def TIMEAVG_def)
  then show ?thesis
    unfolding calibrate_step_def GetScalingFactorsKernel_def FFTUSE_def scaling_kernel_fold
    by (simp add: Let_def FFTUSE_def cong: if_cong)
qed

lemma calibration_invariant:
  "\<exists>means stdevs.
     fold calibrate_step (map finite_block blocks) (0, zero_floats 0, zero_floats 0) =
       (length blocks * 15625, means, stdevs) \<and>
     (\<forall>t < 256. means t = Fin (fst (welford 0 (0, 0) (channel_samples t blocks))) \<and>
                stdevs t = Fin (stdev_of (length blocks * 15625)
                                  (snd (welford 0 (0, 0) (channel_samples t blocks)))))"
proof (induction blocks rule: rev_induct)
  case Nil
  then show ?case by (simp add: zero_floats_def channel_samples_def stdev_of_def)
next
  case (snoc P blocks)
  define k where "k = length blocks * 15625"
  obtain means stdevs where
    f: "fold calibrate_step (map finite_block blocks) (0, zero_floats 0, zero_floats 0) =
       (k, means, stdevs)"
    and m: "\<And>t. t < 256 \<Longrightarrow> means t = Fin (fst (welford 0 (0, 0) (channel_samples t blocks)))"
    and s: "\<And>t. t < 256 \<Longrightarrow> stdevs t = Fin (stdev_of k
                                  (snd (welford 0 (0, 0) (channel_samples t blocks))))"
    using snoc unfolding k_def by blast
  have step: "fold calibrate_step (map finite_block (blocks @ [P]))
        (0, zero_floats 0, zero_floats 0) =
      calibrate_step (finite_block P) (k, means, stdevs)"
    using f by simp
  have len: "length (blocks @ [P]) * 15625 = k + 15625" by (simp add: k_def)
  have main: "fst (scaling_result t (finite_block P) dfactors k (means t) (stdevs t)) =
          Fin (fst (welford 0 (0, 0) (channel_samples t (blocks @ [P])))) \<and>
        snd (scaling_result t (finite_block P) dfactors k (means t) (stdevs t)) =
          Fin (stdev_of (k + 15625) (snd (welford 0 (0, 0) (channel_samples t (blocks @ [P])))))"
    if t: "t < 256" for t
  proof -
    define W where "W = welford 0 (0, 0) (channel_samples t blocks)"
    define sd where "sd = stdev_of k (snd W)"
    have W0: "0 \<le> snd W" unfolding W_def by (simp add: welford_nonneg)
    have e: "sd * sd * (real k - 1) = snd W"
    proof (cases "k = 0")
      case True
      then have "blocks = []" by (simp add: k_def)
      then show ?thesis by (simp add: sd_def stdev_of_def W_def channel_samples_def True)
    next
      case False
      then have "15625 \<le> k" by (cases blocks) (simp_all add: k_def)
      then have p: "0 < real k - 1" by simp
      then have "0 \<le> snd W / (real k - 1)" using W0 by simp
      then have "sqrt (snd W / (real k - 1)) * sqrt (snd W / (real k - 1)) = snd W / (real k - 1)"
        by (rule real_sqrt_mult_self [THEN trans, OF abs_of_nonneg])
      then show ?thesis using p False by (simp add: sd_def stdev_of_def)
    qed
    have nn: "0 \<le> sd * sd * (real k - 1)" unfolding e by (rule W0)
    have w: "welford k (fst W, snd W) (map (\<lambda>isamp. P (isamp * 256 + t)) [0..<15625]) =
        welford 0 (0, 0) (channel_samples t (blocks @ [P]))"
      unfolding channel_samples_snoc welford_append length_channel_samples W_def k_def by simp
    have st: "stdev_of (k + 15625) x = sqrt (x / (real k + 15624))" for x
      by (simp add: stdev_of_def)
    show ?thesis
      unfolding m [OF t] s [OF t] W_def [symmetric] sd_def [symmetric]
        scaling_result_finite [OF nn] e Let_def w st
      by simp
  qed
  show ?case
    unfolding step len calibrate_step_apply
    using main by (intro exI conjI) auto
qed

lemma calibration_five:
  assumes "t < 256"
  shows "fst (fold calibrate_step (map finite_block [P0, P1, P2, P3, P4])
               (0, zero_floats 0, zero_floats 0)) = 78125"
    "fst (snd (fold calibrate_step (map finite_block [P0, P1, P2, P3, P4])
               (0, zero_floats 0, zero_floats 0))) t =
       Fin (fst (welford 0 (0, 0) (channel_samples t [P0, P1, P2, P3, P4])))"
    "snd (snd (fold calibrate_step (map finite_block [P0, P1, P2, P3, P4])
               (0, zero_floats 0, zero_floats 0))) t =
       Fin (sqrt (snd (welford 0 (0, 0) (channel_samples t [P0, P1, P2, P3, P4])) /
                  (real (length (channel_samples t [P0, P1, P2, P3, P4])) - 1)))"
proof -
  obtain means stdevs where
    f: "fold calibrate_step (map finite_block [P0, P1, P2, P3, P4])
          (0, zero_floats 0, zero_floats 0) =
       (length [P0, P1, P2, P3, P4] * 15625, means, stdevs)"
    and m: "means t = Fin (fst (welford 0 (0, 0) (channel_samples t [P0, P1, P2, P3, P4])))"
    and s: "stdevs t = Fin (stdev_of (length [P0, P1, P2, P3, P4] * 15625)
                         (snd (welford 0 (0, 0) (channel_samples t [P0, P1, P2, P3, P4]))))"
    using calibration_invariant [of "[P0, P1, P2, P3, P4]"] assms by blast
  show "fst (fold calibrate_step (map finite_block [P0, P1, P2, P3, P4])
               (0, zero_floats 0, zero_floats 0)) = 78125"
    unfolding f by simp
  show "fst (snd (fold calibrate_step (map finite_block [P0, P1, P2, P3, P4])
               (0, zero_floats 0, zero_floats 0))) t =
       Fin (fst (welford 0 (0, 0) (channel_samples t [P0, P1, P2, P3, P4])))"
    unfolding f using m by simp
  show "snd (snd (fold calibrate_step (map finite_block [P0, P1, P2, P3, P4])
               (0, zero_floats 0, zero_floats 0))) t =
       Fin (sqrt (snd (welford 0 (0, 0) (channel_samples t [P0, P1, P2, P3, P4])) /
                  (real (length (channel_samples t [P0, P1, P2, P3, P4])) - 1)))"
    unfolding f length_channel_samples using s by (simp add: stdev_of_def)
qed


lemma welford_constant_tail: "welford n (c, v) (replicate k c) = (c, v)"
  by (induction k arbitrary: n) (simp_all add: welford_update_def)

lemma welford_constant: "0 < k \<Longrightarrow> welford 0 (0, 0) (replicate k c) = (c, 0)"
proof -
  assume "0 < k"
  then obtain j where k: "k = Suc j" by (cases k) simp_all
  show ?thesis unfolding k by (simp add: welford_update_def welford_constant_tail)
qed

lemma channel_samples_constant:
  "channel_samples t (replicate n (constant_power c)) = replicate (n * 15625) c"
proof (induction n)
  case 0
  then show ?case by (simp add: channel_samples_def)
next
  case (Suc n)
  have "map (\<lambda>isamp. constant_power c (isamp * 256 + t)) [0..<15625] = replicate 15625 c"
    by (simp add: constant_power_def map_replicate_const)
  then show ?case
    using Suc by (simp add: channel_samples_def replicate_add)
qed

text \<open>
  Calibration on constant power gives the standard deviation zero, and the constant
  power is then quantized to the code 0.
\<close>

lemma constant_calibration:
  assumes "t < 256"
  shows "fst (snd (fold calibrate_step (map finite_block (replicate 5 (constant_power c)))
               (0, zero_floats 0, zero_floats 0))) t = Fin c"
    "snd (snd (fold calibrate_step (map finite_block (replicate 5 (constant_power c)))
               (0, zero_floats 0, zero_floats 0))) t = Fin 0"
    "scale_sample (Fin c) (Fin c) (Fin 0) = 0"
proof -
  have r: "replicate 5 (constant_power c) =
      [constant_power c, constant_power c, constant_power c, constant_power c, constant_power c]"
    by (simp add: numeral_eq_Suc)
  have s: "channel_samples t [constant_power c, constant_power c, constant_power c,
      constant_power c, constant_power c] = replicate 78125 c"
    using channel_samples_constant [of t 5 c] unfolding r by simp
  have w: "welford 0 (0, 0) (replicate 78125 c) = (c, 0)" by (simp add: welford_constant)
  show "fst (snd (fold calibrate_step (map finite_block (replicate 5 (constant_power c)))
               (0, zero_floats 0, zero_floats 0))) t = Fin c"
    unfolding r calibration_five(2) [OF assms] s w by simp
  show "snd (snd (fold calibrate_step (map finite_block (replicate 5 (constant_power c)))
               (0, zero_floats 0, zero_floats 0))) t = Fin 0"
    unfolding r calibration_five(3) [OF assms] s w by simp
  show "scale_sample (Fin c) (Fin c) (Fin 0) = 0"
    by (simp add: scale_sample_def float2int_ru_def fsub_def inf_of_sign_def Let_def)
qed

section \<open>The claim about the statistics estimator\<close>



section \<open>Properties of the orchestrator\<close>

lemma phase1_loop_unroll:
  "(\<And>i. i < k \<Longrightarrow> phase1_cond ((phase1_body env ^^ i) m)) \<Longrightarrow>
   \<not> phase1_cond ((phase1_body env ^^ k) m) \<Longrightarrow>
   phase1_loop env m = Some ((phase1_body env ^^ k) m)"
proof (induction k arbitrary: m)
  case 0
  then show ?case by (subst phase1_loop.simps) simp
next
  case (Suc k)
  have c: "phase1_cond m" using Suc.prems(1) [of 0] by simp
  have "phase1_loop env (phase1_body env m) = Some ((phase1_body env ^^ k) (phase1_body env m))"
  proof (rule Suc.IH)
    fix i assume "i < k"
    then show "phase1_cond ((phase1_body env ^^ i) (phase1_body env m))"
      using Suc.prems(1) [of "Suc i"] by (simp add: funpow_swap1)
  next
    show "\<not> phase1_cond ((phase1_body env ^^ k) (phase1_body env m))"
      using Suc.prems(2) by (simp add: funpow_swap1)
  qed
  then show ?case using c by (subst phase1_loop.simps) (simp add: funpow_swap1)
qed

lemma phase1_loop_stops:
  assumes "phase1_loop env m = Some y"
  shows "\<exists>k. \<not> phase1_cond ((phase1_body env ^^ k) m)"
proof (rule phase1_loop.raw_induct
    [where P = "\<lambda>env m y. \<exists>k. \<not> phase1_cond ((phase1_body env ^^ k) m)"])
  fix f env m y
  assume IH: "\<And>env m y. f env m = Some y \<Longrightarrow>
      \<exists>k. \<not> phase1_cond ((phase1_body env ^^ k) m)"
    and eq: "(if phase1_cond m then f env (phase1_body env m) else Some m) = Some y"
  show "\<exists>k. \<not> phase1_cond ((phase1_body env ^^ k) m)"
  proof (cases "phase1_cond m")
    case True
    then have "f env (phase1_body env m) = Some y" using eq by simp
    then obtain k where "\<not> phase1_cond ((phase1_body env ^^ k) (phase1_body env m))"
      using IH by blast
    then have "\<not> phase1_cond ((phase1_body env ^^ Suc k) m)" by (simp add: funpow_swap1)
    then show ?thesis by blast
  next
    case False
    then have "\<not> phase1_cond ((phase1_body env ^^ 0) m)" by simp
    then show ?thesis by blast
  qed
next
  show "phase1_loop env m = Some y" by fact
qed

lemma phase1_loop_diverges:
  "(\<And>k. phase1_cond ((phase1_body env ^^ k) m)) \<Longrightarrow> phase1_loop env m = None"
  using phase1_loop_stops [of env m] by (cases "phase1_loop env m") auto

lemma frame_stream_failed: "failbit s \<Longrightarrow> frame_stream s = s"
  by (simp add: frame_stream_def stream_read_def)

lemma frame_stream_contents: "contents (frame_stream s) = contents s"
  by (simp add: frame_stream_def stream_read_def Let_def)

lemma frame_stream_good:
  assumes "\<not> failbit s" "gpos s + 8032 \<le> length (contents s)"
  shows "frame_stream s = s\<lparr>gpos := gpos s + 8032\<rparr>"
proof -
  have a: "min (length (contents s) - gpos s) 32 = 32" using assms(2) by simp
  have b: "min (length (contents s) - (gpos s + 32)) 8000 = 8000" using assms(2) by simp
  show ?thesis
    using assms(1) by (simp add: frame_stream_def stream_read_def Let_def a b)
qed

lemma frame_stream_short:
  assumes "\<not> failbit s" "\<not> gpos s + 8032 \<le> length (contents s)"
  shows "failbit (frame_stream s)"
proof (cases "gpos s + 32 \<le> length (contents s)")
  case True
  then have a: "min (length (contents s) - gpos s) 32 = 32" by simp
  have b: "min (length (contents s) - (gpos s + 32)) 8000 < 8000" using assms(2) True by simp
  show ?thesis
    using assms(1) b by (simp add: frame_stream_def stream_read_def Let_def a)
next
  case False
  then have a: "min (length (contents s) - gpos s) 32 < 32" by simp
  show ?thesis
    using assms(1) a by (simp add: frame_stream_def stream_read_def Let_def)
qed

lemma frames_failed: "failbit s \<Longrightarrow> (frame_stream ^^ n) s = s"
  by (induction n) (simp_all add: frame_stream_failed)

lemma frames_contents: "contents ((frame_stream ^^ n) s) = contents s"
  by (induction n) (simp_all add: frame_stream_contents)

lemma frames_good:
  "\<not> failbit s \<Longrightarrow> gpos s + n * 8032 \<le> length (contents s) \<Longrightarrow>
   (frame_stream ^^ n) s = s\<lparr>gpos := gpos s + n * 8032\<rparr>"
proof (induction n)
  case 0
  then show ?case by simp
next
  case (Suc n)
  then have "(frame_stream ^^ n) s = s\<lparr>gpos := gpos s + n * 8032\<rparr>" by simp
  moreover have "frame_stream (s\<lparr>gpos := gpos s + n * 8032\<rparr>) =
      s\<lparr>gpos := gpos s + n * 8032 + 8032\<rparr>"
    using Suc.prems by (simp add: frame_stream_good)
  ultimately show ?case by (simp add: add.assoc)
qed

lemma frames_short:
  "\<not> failbit s \<Longrightarrow> gpos s \<le> length (contents s) \<Longrightarrow>
   \<not> gpos s + n * 8032 \<le> length (contents s) \<Longrightarrow>
   failbit ((frame_stream ^^ n) s)"
proof (induction n)
  case 0
  then show ?case by simp
next
  case (Suc n)
  show ?case
  proof (cases "failbit ((frame_stream ^^ n) s)")
    case True
    then show ?thesis by (simp add: frame_stream_failed)
  next
    case False
    then have le: "gpos s + n * 8032 \<le> length (contents s)"
      using Suc.IH Suc.prems(1,2) by blast
    then have e: "(frame_stream ^^ n) s = s\<lparr>gpos := gpos s + n * 8032\<rparr>"
      using Suc.prems(1) by (rule frames_good [rotated])
    have "failbit (frame_stream (s\<lparr>gpos := gpos s + n * 8032\<rparr>))"
      using Suc.prems by (intro frame_stream_short) (simp_all add: add.assoc)
    then show ?thesis by (simp add: e)
  qed
qed

lemma acc_stream_failed: "failbit s \<Longrightarrow> acc_stream s = s"
  by (simp add: acc_stream_def frames_failed)

lemma acc_stream_contents: "contents (acc_stream s) = contents s"
  by (simp add: acc_stream_def frames_contents)

lemma acc_stream_good:
  "\<not> failbit s \<Longrightarrow> gpos s + 32128000 \<le> length (contents s) \<Longrightarrow>
   acc_stream s = s\<lparr>gpos := gpos s + 32128000\<rparr>"
  using frames_good [of s 4000] by (simp add: acc_stream_def)

lemma acc_stream_short:
  "\<not> failbit s \<Longrightarrow> gpos s \<le> length (contents s) \<Longrightarrow>
   \<not> gpos s + 32128000 \<le> length (contents s) \<Longrightarrow> failbit (acc_stream s)"
  using frames_short [of s 4000] by (simp add: acc_stream_def)


lemma accs_failed: "failbit s \<Longrightarrow> (acc_stream ^^ k) s = s"
  by (induction k) (simp_all add: acc_stream_failed)

lemma accs_contents: "contents ((acc_stream ^^ k) s) = contents s"
  by (induction k) (simp_all add: acc_stream_contents)

lemma accs_good:
  "\<not> failbit s \<Longrightarrow> gpos s + k * 32128000 \<le> length (contents s) \<Longrightarrow>
   (acc_stream ^^ k) s = s\<lparr>gpos := gpos s + k * 32128000\<rparr>"
proof (induction k)
  case 0
  then show ?case by simp
next
  case (Suc k)
  then have "(acc_stream ^^ k) s = s\<lparr>gpos := gpos s + k * 32128000\<rparr>" by simp
  moreover have "acc_stream (s\<lparr>gpos := gpos s + k * 32128000\<rparr>) =
      s\<lparr>gpos := gpos s + k * 32128000 + 32128000\<rparr>"
    using Suc.prems by (simp add: acc_stream_good)
  ultimately show ?case by (simp add: add.assoc)
qed

lemma accs_short:
  "\<not> failbit s \<Longrightarrow> gpos s \<le> length (contents s) \<Longrightarrow>
   \<not> gpos s + k * 32128000 \<le> length (contents s) \<Longrightarrow>
   failbit ((acc_stream ^^ k) s)"
proof (induction k)
  case 0
  then show ?case by simp
next
  case (Suc k)
  show ?case
  proof (cases "failbit ((acc_stream ^^ k) s)")
    case True
    then show ?thesis by (simp add: acc_stream_failed)
  next
    case False
    then have le: "gpos s + k * 32128000 \<le> length (contents s)"
      using Suc.IH Suc.prems(1,2) by blast
    then have e: "(acc_stream ^^ k) s = s\<lparr>gpos := gpos s + k * 32128000\<rparr>"
      using Suc.prems(1) by (rule accs_good [rotated])
    have "failbit (acc_stream (s\<lparr>gpos := gpos s + k * 32128000\<rparr>))"
      using Suc.prems le by (intro acc_stream_short) (simp_all add: add.assoc)
    then show ?thesis by (simp add: e)
  qed
qed

text \<open>The read position the loops see after \<open>k\<close> accumulations from the start of a file.\<close>

lemma tellg_accs:
  assumes "\<not> failbit s" "gpos s = 0"
  shows "tellg ((acc_stream ^^ k) s) =
         (if k * 32128000 \<le> length (contents s) then int (k * 32128000) else - 1)"
proof (cases "k * 32128000 \<le> length (contents s)")
  case True
  then show ?thesis using assms accs_good [of s k] by (simp add: tellg_def)
next
  case False
  then show ?thesis using assms accs_short [of s k] by (simp add: tellg_def)
qed

lemma tellg_accs_failed: "failbit s \<Longrightarrow> tellg ((acc_stream ^^ k) s) = - 1"
  by (simp add: accs_failed tellg_def)

lemma open_input_long:
  assumes "32 \<le> length bytes"
  shows "open_input bytes = (\<lparr>contents = bytes, gpos = 0, failbit = False\<rparr>, int (length bytes))"
proof -
  have "min (length bytes) 32 = 32" using assms by simp
  then show ?thesis
    by (simp add: open_input_def stream_read_def seekg_end_def seekg_beg_def tellg_def Let_def)
qed

lemma open_input_short:
  assumes "length bytes < 32"
  shows "failbit (fst (open_input bytes))" "snd (open_input bytes) = - 1"
proof -
  have "min (length bytes) 32 < 32" using assms by simp
  then show "failbit (fst (open_input bytes))" "snd (open_input bytes) = - 1"
    by (simp_all add: open_input_def stream_read_def seekg_end_def seekg_beg_def tellg_def
        Let_def)
qed

lemma open_input_contents: "contents (fst (open_input bytes)) = bytes"
  by (simp add: open_input_def stream_read_def seekg_end_def seekg_beg_def tellg_def Let_def)

lemma open_input_start: "\<not> failbit (fst (open_input bytes)) \<Longrightarrow> gpos (fst (open_input bytes)) = 0"
  by (simp add: open_input_def stream_read_def seekg_end_def seekg_beg_def tellg_def Let_def
      split: if_splits)

text \<open>
  The read position after \<open>k\<close> accumulations of a file that has just been opened:
  \<open>k\<close> accumulations on while the file holds them, -1 from the first read that fails.
\<close>

lemma tellg_opened:
  "tellg ((acc_stream ^^ k) (fst (open_input bytes))) =
     (if 32 \<le> length bytes \<and> k * 32128000 \<le> length bytes then int (k * 32128000) else - 1)"
proof (cases "32 \<le> length bytes")
  case True
  then show ?thesis
    using tellg_accs [of "fst (open_input bytes)" k] by (simp add: open_input_long)
next
  case False
  then have "failbit (fst (open_input bytes))" by (simp add: open_input_short)
  then show ?thesis using False by (simp add: tellg_accs_failed)
qed

lemma read_frames_streams:
  "filepola (fold read_frame [0..<n] m) = (frame_stream ^^ n) (filepola m) \<and>
   filepolb (fold read_frame [0..<n] m) = (frame_stream ^^ n) (filepolb m) \<and>
   filelengtha (fold read_frame [0..<n] m) = filelengtha m \<and>
   filelengthb (fold read_frame [0..<n] m) = filelengthb m \<and>
   filfile (fold read_frame [0..<n] m) = filfile m \<and>
   npasses1 (fold read_frame [0..<n] m) = npasses1 m \<and>
   npasses2 (fold read_frame [0..<n] m) = npasses2 m"
  by (induction n) (simp_all add: read_frame_def Let_def frame_stream_def)

lemma read_accumulation_streams:
  "filepola (read_accumulation m) = acc_stream (filepola m)"
  "filepolb (read_accumulation m) = acc_stream (filepolb m)"
  "filelengtha (read_accumulation m) = filelengtha m"
  "filelengthb (read_accumulation m) = filelengthb m"
  "filfile (read_accumulation m) = filfile m"
  "npasses1 (read_accumulation m) = npasses1 m"
  "npasses2 (read_accumulation m) = npasses2 m"
  using read_frames_streams [of 4000 m]
  by (simp_all add: read_accumulation_def NACCUMULATE_def acc_stream_def)

lemma phase1_body_streams:
  "filepola (phase1_body env m) = acc_stream (filepola m)"
  "filepolb (phase1_body env m) = acc_stream (filepolb m)"
  "npasses1 (phase1_body env m) = npasses1 m + 1"
  by (simp_all add: phase1_body_def Let_def unpack_transform_def read_accumulation_streams)

lemma phase1_passes_streams:
  "filepola ((phase1_body env ^^ k) m) = (acc_stream ^^ k) (filepola m) \<and>
   filepolb ((phase1_body env ^^ k) m) = (acc_stream ^^ k) (filepolb m) \<and>
   npasses1 ((phase1_body env ^^ k) m) = npasses1 m + k"
  by (induction k) (simp_all add: phase1_body_streams)




text \<open>The condition of the first loop after \<open>k\<close> passes, on inputs just opened.\<close>

lemma phase1_cond_passes:
  assumes "filepola m = fst (open_input bytesa)" "filepolb m = fst (open_input bytesb)"
  shows "phase1_cond ((phase1_body env ^^ k) m) =
     (tellg ((acc_stream ^^ k) (fst (open_input bytesa))) < 160640000 \<and>
      tellg ((acc_stream ^^ k) (fst (open_input bytesb))) < 160640000)"
  using phase1_passes_streams [where env = env and k = k and m = m] assms
  by (simp add: phase1_cond_def NACCUMULATE_def)

lemma short_input_goes_on:
  assumes "length bytes < 160640000"
  shows "tellg ((acc_stream ^^ k) (fst (open_input bytes))) < 160640000"
proof (cases "32 \<le> length bytes \<and> k * 32128000 \<le> length bytes")
  case True
  then have "k * 32128000 < 160640000" using assms by linarith
  then show ?thesis using True by (simp add: tellg_opened)
next
  case False
  then show ?thesis by (simp only: tellg_opened if_False)
qed

lemma long_input_goes_on:
  assumes "160640000 \<le> length bytes" "k < 5"
  shows "tellg ((acc_stream ^^ k) (fst (open_input bytes))) < 160640000"
proof -
  have "k * 32128000 \<le> 4 * 32128000" using assms(2) by simp
  then have "k * 32128000 < 160640000" by simp
  then show ?thesis using assms(1) by (simp add: tellg_opened)
qed

lemma long_input_stops:
  assumes "160640000 \<le> length bytes"
  shows "\<not> tellg ((acc_stream ^^ 5) (fst (open_input bytes))) < 160640000"
  using assms by (simp add: tellg_opened)

lemma input_goes_on:
  assumes "k < 5"
  shows "tellg ((acc_stream ^^ k) (fst (open_input bytes))) < 160640000"
  using assms short_input_goes_on [of bytes k] long_input_goes_on [of bytes k]
  by (cases "160640000 \<le> length bytes") simp_all

lemma phase1_five_passes:
  assumes "filepola m = fst (open_input bytesa)" "filepolb m = fst (open_input bytesb)"
    and "160640000 \<le> length bytesa \<or> 160640000 \<le> length bytesb"
  shows "phase1_loop env m = Some ((phase1_body env ^^ 5) m)"
proof (rule phase1_loop_unroll)
  fix i :: nat assume "i < 5"
  then show "phase1_cond ((phase1_body env ^^ i) m)"
    unfolding phase1_cond_passes [OF assms(1,2)] by (simp add: input_goes_on)
next
  show "\<not> phase1_cond ((phase1_body env ^^ 5) m)"
    unfolding phase1_cond_passes [OF assms(1,2)]
    using assms(3) long_input_stops [of bytesa] long_input_stops [of bytesb] by blast
qed

lemma phase1_never_stops:
  assumes "filepola m = fst (open_input bytesa)" "filepolb m = fst (open_input bytesb)"
    and "length bytesa < 160640000" "length bytesb < 160640000"
  shows "phase1_cond ((phase1_body env ^^ k) m)"
  unfolding phase1_cond_passes [OF assms(1,2)]
  using short_input_goes_on [OF assms(3)] short_input_goes_on [OF assms(4)] by simp

lemma phase1_loop_result:
  assumes "filepola m = fst (open_input bytesa)" "filepolb m = fst (open_input bytesb)"
  shows "phase1_loop env m =
     (if 160640000 \<le> length bytesa \<or> 160640000 \<le> length bytesb
      then Some ((phase1_body env ^^ 5) m) else None)"
proof (cases "160640000 \<le> length bytesa \<or> 160640000 \<le> length bytesb")
  case True
  then show ?thesis using phase1_five_passes [OF assms] by simp
next
  case False
  then have s: "length bytesa < 160640000" "length bytesb < 160640000" by simp_all
  have "phase1_loop env m = None"
    by (rule phase1_loop_diverges) (rule phase1_never_stops [OF assms s])
  then show ?thesis using False by simp
qed




lemma same_parse_Inl [simp]: "same_parse (Inl e) (Inl e)"
  by (simp add: same_parse_def)

lemma same_parse_Inr [simp]: "same_parse (Inr p) (Inr q) = same_run p q"
  by (simp add: same_parse_def)

lemma parse_args_prefix:
  "args_complete pre \<Longrightarrow>
   parse_args stod (pre @ rest) opts =
     (case parse_args stod pre opts of Inl e \<Rightarrow> Inl e | Inr opts' \<Rightarrow> parse_args stod rest opts')"
proof (induction pre arbitrary: opts rule: args_complete.induct)
  case 1
  then show ?case by simp
next
  case (2 arg)
  then show ?case by simp
next
  case (3 arg v rest')
  then show ?case by (auto split: option.splits)
qed

lemma parse_args_same:
  "same_run p q \<Longrightarrow> same_parse (parse_args stod args p) (parse_args stod args q)"
proof (induction stod args p arbitrary: q rule: parse_args.induct)
  case (1 stod opts)
  then show ?case by simp
next
  case (2 stod arg rest opts)
  have u: "same_run (opts\<lparr>inpola := v\<rparr>) (q\<lparr>inpola := v\<rparr>)"
    "same_run (opts\<lparr>inpolb := v\<rparr>) (q\<lparr>inpolb := v\<rparr>)"
    "same_run (opts\<lparr>outfil := v\<rparr>) (q\<lparr>outfil := v\<rparr>)"
    "same_run (opts\<lparr>config := v\<rparr>) (q\<lparr>config := v\<rparr>)"
    "same_run (opts\<lparr>scaling := True\<rparr>) (q\<lparr>scaling := True\<rparr>)"
    "same_run (opts\<lparr>saveinter := True\<rparr>) (q\<lparr>saveinter := True\<rparr>)"
    "same_run (opts\<lparr>readsec := r\<rparr>) (q\<lparr>readsec := r'\<rparr>)" for v r r'
    using "2.prems" by (simp_all add: same_run_def)
  show ?case
    using 2 u by (auto split: list.splits option.splits)
qed

lemma run_same:
  assumes "same_run p q"
  shows "run env p = run env q"
proof -
  have e: "scaling p = scaling q" "config p = config q" "inpola p = inpola q"
    "inpolb p = inpolb q"
    using assms by (simp_all add: same_run_def)
  show ?thesis unfolding run_def e ..
qed


lemma start_machine_streams:
  "filepola (start_machine bytesa bytesb) = fst (open_input bytesa)"
  "filepolb (start_machine bytesa bytesb) = fst (open_input bytesb)"
  "filelengtha (start_machine bytesa bytesb) = snd (open_input bytesa)"
  "filelengthb (start_machine bytesa bytesb) = snd (open_input bytesb)"
  "npasses1 (start_machine bytesa bytesb) = 0"
  "npasses2 (start_machine bytesa bytesb) = 0"
  "filfile (start_machine bytesa bytesb) = []"
  by (simp_all add: start_machine_def example_memory_def)


section \<open>The claims about the orchestrator\<close>





text \<open>
  C10, as the specification states it, fails: with five accumulations in the first input
  and nothing but one header in the second, the calibration loop ends, after five
  passes.
\<close>

theorem phase1_one_short_counterexample:
  "length header_only = 32 \<and>
   map_option npasses1
     (phase1_loop example_env (start_machine five_accumulations header_only)) = Some 5"
proof -
  have l: "160640000 \<le> length five_accumulations \<or> 160640000 \<le> length header_only"
    by (simp add: five_accumulations_def)
  have "phase1_loop example_env (start_machine five_accumulations header_only) =
      Some ((phase1_body example_env ^^ 5) (start_machine five_accumulations header_only))"
    by (rule phase1_five_passes [OF start_machine_streams(1,2) l])
  then show ?thesis
    using phase1_passes_streams [where k = 5 and env = example_env
        and m = "start_machine five_accumulations header_only"]
    by (simp add: start_machine_streams header_only_def)
qed

text \<open>
  C10, amended. The calibration loop ends if and only if at least one of the two inputs
  holds five full framed accumulations (5 times 4000 frames of 8032 bytes); it then makes
  exactly five passes. When both inputs are shorter, its condition holds after any
  number of passes, and the loop does not end: the read position of an input is the
  number of bytes of the accumulations read while the input holds them, and -1 from the
  first read that fails.
\<close>

theorem phase1_loop_termination:
  "filepola m = fst (open_input bytesa) \<Longrightarrow> filepolb m = fst (open_input bytesb) \<Longrightarrow>
   (phase1_loop env m \<noteq> None) =
     (5 * 4000 * 8032 \<le> length bytesa \<or> 5 * 4000 * 8032 \<le> length bytesb) \<and>
   (5 * 4000 * 8032 \<le> length bytesa \<or> 5 * 4000 * 8032 \<le> length bytesb \<longrightarrow>
      map_option npasses1 (phase1_loop env m) = Some (npasses1 m + 5)) \<and>
   (length bytesa < 5 * 4000 * 8032 \<and> length bytesb < 5 * 4000 * 8032 \<longrightarrow>
      phase1_loop env m = None \<and> phase1_cond ((phase1_body env ^^ k) m)) \<and>
   tellg (filepola ((phase1_body env ^^ k) m)) =
     (if 32 \<le> length bytesa \<and> k * (4000 * 8032) \<le> length bytesa
      then int (k * (4000 * 8032)) else - 1) \<and>
   tellg (filepolb ((phase1_body env ^^ k) m)) =
     (if 32 \<le> length bytesb \<and> k * (4000 * 8032) \<le> length bytesb
      then int (k * (4000 * 8032)) else - 1)"
proof -
  assume a: "filepola m = fst (open_input bytesa)" "filepolb m = fst (open_input bytesb)"
  note r = phase1_loop_result [OF a, of env]
  have p: "npasses1 ((phase1_body env ^^ 5) m) = npasses1 m + 5"
    using phase1_passes_streams [where k = 5 and env = env and m = m] by simp
  have s: "filepola ((phase1_body env ^^ k) m) = (acc_stream ^^ k) (fst (open_input bytesa))"
    "filepolb ((phase1_body env ^^ k) m) = (acc_stream ^^ k) (fst (open_input bytesb))"
    using phase1_passes_streams [where k = k and env = env and m = m] a by simp_all
  have c: "length bytesa < 160640000 \<Longrightarrow> length bytesb < 160640000 \<Longrightarrow>
      phase1_cond ((phase1_body env ^^ k) m)"
    by (rule phase1_never_stops [OF a])
  have t: "tellg (filepola ((phase1_body env ^^ k) m)) =
     (if 32 \<le> length bytesa \<and> k * 32128000 \<le> length bytesa
      then int (k * 32128000) else - 1)"
    "tellg (filepolb ((phase1_body env ^^ k) m)) =
     (if 32 \<le> length bytesb \<and> k * 32128000 \<le> length bytesb
      then int (k * 32128000) else - 1)"
    unfolding s tellg_opened by simp_all
  show ?thesis
    using r p c t by (simp split: if_splits)
qed

theorem phase1_loop_termination_witness:
  "(phase1_loop example_env (start_machine five_accumulations five_accumulations) \<noteq> None) \<and>
   map_option npasses1
     (phase1_loop example_env (start_machine five_accumulations five_accumulations)) =
     Some (npasses1 (start_machine five_accumulations five_accumulations) + 5) \<and>
   phase1_loop example_env (start_machine header_only header_only) = None \<and>
   phase1_cond ((phase1_body example_env ^^ 7) (start_machine header_only header_only)) \<and>
   tellg (filepola ((phase1_body example_env ^^ 7) (start_machine header_only header_only))) = - 1"
proof -
  have l: "length five_accumulations = 160640000" "length header_only = 32"
    by (simp_all add: five_accumulations_def header_only_def)
  note a = phase1_loop_termination
      [where m = "start_machine five_accumulations five_accumulations"
        and bytesa = five_accumulations and bytesb = five_accumulations
        and env = example_env and k = 0, OF start_machine_streams(1,2)]
  note b = phase1_loop_termination
      [where m = "start_machine header_only header_only"
        and bytesa = header_only and bytesb = header_only
        and env = example_env and k = 7, OF start_machine_streams(1,2)]
  show ?thesis using a b by (simp add: l)
qed

lemma main_readsec_value:
  assumes c: "args_complete pre"
    and v: "env_stod env v1 \<noteq> None" "env_stod env v2 \<noteq> None"
  shows "main env (pre @ ''-r'' # v1 # post) = main env (pre @ ''-r'' # v2 # post)"
proof -
  obtain r1 r2 where r: "env_stod env v1 = Some r1" "env_stod env v2 = Some r2"
    using v by blast
  define x where "x = parse_args (env_stod env) pre initial_options"
  have p1: "parse_args (env_stod env) (pre @ ''-r'' # v1 # post) initial_options =
      (case x of Inl e \<Rightarrow> Inl e
       | Inr opts \<Rightarrow> parse_args (env_stod env) post (opts\<lparr>readsec := Some r1\<rparr>))"
    unfolding x_def parse_args_prefix [OF c] by (simp add: r split: sum.splits)
  have p2: "parse_args (env_stod env) (pre @ ''-r'' # v2 # post) initial_options =
      (case x of Inl e \<Rightarrow> Inl e
       | Inr opts \<Rightarrow> parse_args (env_stod env) post (opts\<lparr>readsec := Some r2\<rparr>))"
    unfolding x_def parse_args_prefix [OF c] by (simp add: r split: sum.splits)
  have "same_parse (parse_args (env_stod env) (pre @ ''-r'' # v1 # post) initial_options)
      (parse_args (env_stod env) (pre @ ''-r'' # v2 # post) initial_options)"
  proof (cases x)
    case (Inl e)
    then show ?thesis unfolding p1 p2 by simp
  next
    case (Inr opts)
    have "same_run (opts\<lparr>readsec := Some r1\<rparr>) (opts\<lparr>readsec := Some r2\<rparr>)"
      by (simp add: same_run_def)
    then show ?thesis unfolding p1 p2 Inr by (simp add: parse_args_same)
  qed
  then show ?thesis
    by (auto simp: main_def same_parse_def run_same split: sum.splits)
qed

text \<open>
  C8. Two runs on the same inputs and configuration that differ only in the value of the
  seconds to process give the same result: the same failure or the same final state,
  with the same number of passes of the second loop and the same output, or no end in
  both. This holds for the run on the options read, whatever the two values are, and
  for \<open>main\<close> on two command lines that differ only in the value given to \<open>-r\<close>, both
  values being numbers \<open>std::stod\<close> accepts and \<open>-r\<close> standing where the parser reads an
  option.
\<close>

theorem readsec_has_no_effect:
  "run env (opts\<lparr>readsec := r1\<rparr>) = run env (opts\<lparr>readsec := r2\<rparr>) \<and>
   (args_complete pre \<and> env_stod env v1 \<noteq> None \<and> env_stod env v2 \<noteq> None \<longrightarrow>
      main env (pre @ ''-r'' # v1 # post) = main env (pre @ ''-r'' # v2 # post))"
proof -
  have "same_run (opts\<lparr>readsec := r1\<rparr>) (opts\<lparr>readsec := r2\<rparr>)"
    by (simp add: same_run_def)
  then show ?thesis
    using run_same [of "opts\<lparr>readsec := r1\<rparr>" "opts\<lparr>readsec := r2\<rparr>" env]
      main_readsec_value [of pre env v1 v2 post]
    by blast
qed

theorem readsec_has_no_effect_witness:
  "run example_env (initial_options\<lparr>readsec := Some (Fin 1)\<rparr>) =
     run example_env (initial_options\<lparr>readsec := Some (Fin 2)\<rparr>) \<and>
   args_complete [''vdifil'', ''-a'', ''a.vdif'', ''-b'', ''b.vdif'', ''-c'', ''config''] \<and>
   env_stod example_env ''1'' \<noteq> None \<and> env_stod example_env ''2'' \<noteq> None \<and>
   main example_env
     ([''vdifil'', ''-a'', ''a.vdif'', ''-b'', ''b.vdif'', ''-c'', ''config''] @
      ''-r'' # ''1'' # [''-o'', ''out.fil'']) =
   main example_env
     ([''vdifil'', ''-a'', ''a.vdif'', ''-b'', ''b.vdif'', ''-c'', ''config''] @
      ''-r'' # ''2'' # [''-o'', ''out.fil''])"
proof -
  have h: "args_complete [''vdifil'', ''-a'', ''a.vdif'', ''-b'', ''b.vdif'', ''-c'', ''config''] \<and>
    env_stod example_env ''1'' \<noteq> None \<and> env_stod example_env ''2'' \<noteq> None"
    by (simp add: example_env_def example_stod_def)
  show ?thesis
    using h readsec_has_no_effect
      [where env = example_env and opts = initial_options and ?r1.0 = "Some (Fin 1)"
        and ?r2.0 = "Some (Fin 2)"
        and pre = "[''vdifil'', ''-a'', ''a.vdif'', ''-b'', ''b.vdif'', ''-c'', ''config'']"
        and ?v1.0 = "''1''" and ?v2.0 = "''2''" and post = "[''-o'', ''out.fil'']"]
    by blast
qed

end
